theory Spec2Isabelle
  imports Main "HOL-Library.Char_ord" "HOL-Library.List_Lexorder"
begin

section \<open>Strings and regular-expression replacement\<close>

text \<open>
  A JavaScript string is modelled as a \<^typ>\<open>string\<close>: a list of code units below 256.
  The character classes of the regular expressions used by the program are restricted to
  that range: \<open>\s\<close> is TAB, LF, VT, FF, CR, SPACE and NBSP; a line terminator (what
  \<open>.\<close> excludes and what \<open>$\<close> stops at under the \<open>m\<close> flag) is LF or CR; \<open>\w\<close> is
  \<open>[A-Za-z0-9_]\<close>.
\<close>

definition isSpace :: "char \<Rightarrow> bool" where
  "isSpace c = (c = CHR 0x09 \<or> c = CHR 0x0A \<or> c = CHR 0x0B \<or> c = CHR 0x0C \<or> c = CHR 0x0D
     \<or> c = CHR 0x20 \<or> c = CHR 0xA0)"

definition isLineTerminator :: "char \<Rightarrow> bool" where
  "isLineTerminator c = (c = CHR 0x0A \<or> c = CHR 0x0D)"

definition isWordChar :: "char \<Rightarrow> bool" where
  "isWordChar c = (let n = (of_char c :: nat) in
     (48 \<le> n \<and> n \<le> 57) \<or> (65 \<le> n \<and> n \<le> 90) \<or> n = 95 \<or> (97 \<le> n \<and> n \<le> 122))"

text \<open>\<open>s.startsWith(p)\<close>.\<close>

definition startsWith :: "string \<Rightarrow> string \<Rightarrow> bool" where
  "startsWith s p = (take (length p) s = p)"

text \<open>
  The assertion \<open>\b\<close> between the code unit before the current position (\<open>None\<close> at the
  start of the text) and the code unit after it (\<open>None\<close> at the end).
\<close>

definition wordAt :: "char option \<Rightarrow> bool" where
  "wordAt p = (case p of None \<Rightarrow> False | Some c \<Rightarrow> isWordChar c)"

definition next_char :: "string \<Rightarrow> char option" where
  "next_char s = (case s of [] \<Rightarrow> None | c # _ \<Rightarrow> Some c)"

definition boundary :: "char option \<Rightarrow> string \<Rightarrow> bool" where
  "boundary prev rest = (wordAt prev \<noteq> wordAt (next_char rest))"

text \<open>
  A pattern is a function that, tried at one position of the text, is given the code unit
  before the position and the text from the position on, and returns the length of the
  match there, if any.
\<close>

type_synonym pattern = "char option \<Rightarrow> string \<Rightarrow> nat option"

text \<open>
  \<open>text.replace(re, rep)\<close> for a regular expression without the \<open>g\<close> flag: the leftmost
  match is replaced. None of the replacement strings of the program contains \<open>$\<close>.
\<close>

fun replaceFirst :: "pattern \<Rightarrow> string \<Rightarrow> char option \<Rightarrow> string \<Rightarrow> string" where
  "replaceFirst m rep prev [] = (case m prev [] of None \<Rightarrow> [] | Some _ \<Rightarrow> rep)"
| "replaceFirst m rep prev (c # cs) =
     (case m prev (c # cs) of
        None \<Rightarrow> c # replaceFirst m rep (Some c) cs
      | Some k \<Rightarrow> rep @ drop k (c # cs))"

text \<open>
  \<open>text.replace(re, rep)\<close> with the \<open>g\<close> flag: matches are found from left to right in the
  original text, each search starting where the previous match ended, and one code unit
  further after an empty match.
\<close>

fun replaceAll :: "pattern \<Rightarrow> string \<Rightarrow> char option \<Rightarrow> string \<Rightarrow> string" where
  "replaceAll m rep prev [] = (case m prev [] of None \<Rightarrow> [] | Some _ \<Rightarrow> rep)"
| "replaceAll m rep prev (c # cs) =
     (case m prev (c # cs) of
        None \<Rightarrow> c # replaceAll m rep (Some c) cs
      | Some 0 \<Rightarrow> rep @ c # replaceAll m rep (Some c) cs
      | Some (Suc k) \<Rightarrow>
          rep @ replaceAll m rep (Some (last (take (Suc k) (c # cs)))) (drop k cs))"

subsection \<open>The patterns of \<open>normalizeWhitespace\<close>\<close>

text \<open>\<open>[\s\S]*?\*\/\<close>: the length up to and including the first \<open>*/\<close>.\<close>

fun findClose :: "string \<Rightarrow> nat option" where
  "findClose (a # b # r) =
     (if a = CHR ''*'' \<and> b = CHR ''/'' then Some 2 else map_option Suc (findClose (b # r)))"
| "findClose _ = None"

text \<open>\<open>/\/\*[\s\S]*?\*\//\<close>\<close>

definition blockComment :: pattern where
  "blockComment prev rest =
     (if startsWith rest ''/*'' then map_option (\<lambda>k. 2 + k) (findClose (drop 2 rest)) else None)"

text \<open>\<open>/\/\/.*$/m\<close>: the greedy \<open>.*\<close> runs to the next line terminator or to the end.\<close>

definition lineComment :: pattern where
  "lineComment prev rest =
     (if startsWith rest ''//''
      then Some (2 + length (takeWhile (\<lambda>c. \<not> isLineTerminator c) (drop 2 rest)))
      else None)"

text \<open>\<open>/\s+/\<close>\<close>

definition whitespaceRun :: pattern where
  "whitespaceRun prev rest =
     (case takeWhile isSpace rest of [] \<Rightarrow> None | w # ws \<Rightarrow> Some (Suc (length ws)))"

text \<open>\<open>text.trim()\<close>\<close>

definition trim :: "string \<Rightarrow> string" where
  "trim s = rev (dropWhile isSpace (rev (dropWhile isSpace s)))"

text \<open>Collapse all whitespace and strip comments from a code string.\<close>

definition normalizeWhitespace :: "string \<Rightarrow> string" where
  "normalizeWhitespace text =
     trim (replaceAll whitespaceRun '' '' None
       (replaceAll lineComment '' '' None
         (replaceAll blockComment '' '' None text)))"

subsection \<open>The patterns of \<open>normalizeShape\<close>\<close>

text \<open>
  Escape special regex characters in a string: \<open>escapeRegExp\<close> puts a backslash before
  each of \<open>. * + ? ^ $ { } ( ) | [ ] \\<close>, the syntax characters of a regular expression.
\<close>

definition regexSyntaxChars :: string where
  "regexSyntaxChars = ''.*+?^${}()|[]'' @ [CHR 0x5C]"

definition escapeRegExp :: "string \<Rightarrow> string" where
  "escapeRegExp v = concat (map (\<lambda>c. if c \<in> set regexSyntaxChars then [CHR 0x5C, c] else [c]) v)"

text \<open>
  The part of a pattern source that \<open>escapeRegExp\<close> writes, matched at the start of a text:
  a backslash followed by a character matches that character, any other character matches
  itself. The result is the length of the match.
\<close>

fun matchEscaped :: "string \<Rightarrow> string \<Rightarrow> nat option" where
  "matchEscaped [] s = Some 0"
| "matchEscaped [p] s =
     (case s of [] \<Rightarrow> None | c # cs \<Rightarrow> if c = p then Some 1 else None)"
| "matchEscaped (p # q # ps) s =
     (case s of
        [] \<Rightarrow> None
      | c # cs \<Rightarrow>
          if p = CHR 0x5C then (if c = q then map_option Suc (matchEscaped ps cs) else None)
          else (if c = p then map_option Suc (matchEscaped (q # ps) cs) else None))"

definition lastOr :: "char option \<Rightarrow> string \<Rightarrow> char option" where
  "lastOr prev s = (if s = [] then prev else Some (last s))"

text \<open>\<open>new RegExp(`\\b${escapeRegExp(name)}\\b`, "g")\<close>\<close>

definition namedPattern :: "string \<Rightarrow> pattern" where
  "namedPattern name prev rest =
     (if boundary prev rest then
        (case matchEscaped (escapeRegExp name) rest of
           None \<Rightarrow> None
         | Some k \<Rightarrow> if boundary (lastOr prev (take k rest)) (drop k rest) then Some k else None)
      else None)"

text \<open>\<open>/\binterface\s+__NAME__\s*\{/\<close>\<close>

definition interfacePattern :: pattern where
  "interfacePattern prev rest =
     (if boundary prev rest \<and> startsWith rest ''interface'' then
        let r1 = drop 9 rest; w1 = length (takeWhile isSpace r1); r2 = drop w1 r1 in
        if 0 < w1 \<and> startsWith r2 ''__NAME__'' then
          let r3 = drop 8 r2; w2 = length (takeWhile isSpace r3) in
          if startsWith (drop w2 r3) ''{'' then Some (9 + w1 + 8 + w2 + 1) else None
        else None
      else None)"

text \<open>\<open>/^export\s+/\<close>\<close>

definition exportPattern :: pattern where
  "exportPattern prev rest =
     (if prev = None \<and> startsWith rest ''export'' then
        let w = length (takeWhile isSpace (drop 6 rest)) in
        if 0 < w then Some (6 + w) else None
      else None)"

text \<open>\<open>/\bconst\s+enum\b/\<close>\<close>

definition constEnumPattern :: pattern where
  "constEnumPattern prev rest =
     (if boundary prev rest \<and> startsWith rest ''const'' then
        let r1 = drop 5 rest; w = length (takeWhile isSpace r1); r2 = drop w r1 in
        if 0 < w \<and> startsWith r2 ''enum'' \<and> boundary (Some CHR ''m'') (drop 4 r2)
        then Some (5 + w + 4) else None
      else None)"

text \<open>\<open>/\s*;\s*$/\<close>: without the \<open>m\<close> flag, \<open>$\<close> is the end of the text.\<close>

definition trailingSemicolon :: pattern where
  "trailingSemicolon prev rest =
     (case dropWhile isSpace rest of
        [] \<Rightarrow> None
      | c # r \<Rightarrow> if c = CHR '';'' \<and> (\<forall>x \<in> set r. isSpace x) then Some (length rest) else None)"

definition placeholder :: string where
  "placeholder = ''__NAME__''"

text \<open>Create a normalised shape string for duplicate comparison.\<close>

definition normalizeShape :: "string \<Rightarrow> string \<Rightarrow> string" where
  "normalizeShape rawSnippet name =
     (let c0 = normalizeWhitespace rawSnippet;
          c1 = replaceAll (namedPattern name) placeholder None c0;
          c2 = replaceFirst interfacePattern ''type __NAME__ = {'' None c1;
          c3 = replaceFirst exportPattern [] None c2;
          c4 = replaceFirst constEnumPattern ''enum'' None c3;
          c5 = replaceFirst trailingSemicolon [] None c4
      in c5)"

section \<open>Words of a text\<close>

text \<open>
  The words of a text are its maximal runs of word characters. A name occurs as a whole
  word where it stands between two word boundaries, which is where \<open>\bname\b\<close> matches;
  \<open>countOccurrences\<close> counts the places where a string occurs at all.
\<close>

function (sequential) words :: "string \<Rightarrow> string list" where
  "words [] = []"
| "words (c # cs) =
     (if isWordChar c then (c # takeWhile isWordChar cs) # words (dropWhile isWordChar cs)
      else words cs)"
  by pat_completeness auto
termination
  by (relation "measure length") (auto simp: length_dropWhile_le less_Suc_eq_le)






text \<open>
  Two texts meet at a junction when no word runs across the place where they meet.
\<close>

definition junction :: "string \<Rightarrow> string \<Rightarrow> bool" where
  "junction x y \<longleftrightarrow> x = [] \<or> y = [] \<or> \<not> isWordChar (last x) \<or> \<not> isWordChar (hd y)"

text \<open>
  A pattern is separating when its matches start at a character that is not a word
  character and end at a junction.
\<close>

definition separating :: "pattern \<Rightarrow> bool" where
  "separating m \<longleftrightarrow>
     (\<forall>p r k. m p r = Some k \<longrightarrow>
        r \<noteq> [] \<and> \<not> isWordChar (hd r) \<and> 0 < k \<and> junction (take k r) (drop k r))"




text \<open>
  \<open>s.split(sep)\<close> for a separator of one code unit, as in \<open>value.split(",")\<close>, and
  \<open>parts.join(glue)\<close>.
\<close>

fun splitOn :: "char \<Rightarrow> string \<Rightarrow> string list" where
  "splitOn sep [] = [[]]"
| "splitOn sep (c # cs) =
     (if c = sep then [] # splitOn sep cs
      else (case splitOn sep cs of [] \<Rightarrow> [[c]] | w # ws \<Rightarrow> (c # w) # ws))"

fun joinWith :: "string \<Rightarrow> string list \<Rightarrow> string" where
  "joinWith glue [] = []"
| "joinWith glue [p] = p"
| "joinWith glue (p # q # ps) = p @ glue @ joinWith glue (q # ps)"

text \<open>
  Convert a file path to POSIX-style forward slashes: \<open>filePath.split(path.sep).join("/")\<close>.
  \<open>path.sep\<close> is the separator of the platform, one code unit; it is a parameter.
\<close>

definition toPosix :: "char \<Rightarrow> string \<Rightarrow> string" where
  "toPosix sep filePath = joinWith ''/'' (splitOn sep filePath)"

text \<open>
  \<open>text.slice(from, to)\<close> for two non-negative positions, and \<open>text.slice(0, to)\<close> for an
  integer \<open>to\<close>, which counts from the end of the text when it is negative.
\<close>

definition slice :: "string \<Rightarrow> nat \<Rightarrow> nat \<Rightarrow> string" where
  "slice s from to = take (to - from) (drop from s)"

definition sliceTo :: "string \<Rightarrow> int \<Rightarrow> string" where
  "sliceTo s to = take (nat (if to < 0 then int (length s) + to else to)) s"

text \<open>Maximum length for inline snippet display.\<close>

definition MAX_SNIPPET_LENGTH :: int where
  "MAX_SNIPPET_LENGTH = 200"

text \<open>Produce a compact, truncated snippet for display.\<close>

definition formatSnippet :: "string \<Rightarrow> int \<Rightarrow> string" where
  "formatSnippet rawSnippet maxLength =
     (let compact = normalizeWhitespace rawSnippet in
      if int (length compact) \<le> maxLength then compact
      else sliceTo compact (maxLength - 3) @ ''...'')"

section \<open>Grouping\<close>

text \<open>
  A \<open>Map<string, T[]>\<close> is modelled as the list of its entries in insertion order, which
  is the order \<open>groups.entries()\<close> iterates in. \<open>pushItem\<close> is the body of the loop of
  \<open>groupBy\<close>: \<open>existing.push(item)\<close> when the key has an entry, \<open>map.set(key, [item])\<close>
  otherwise.
\<close>

type_synonym 'a buckets = "(string \<times> 'a list) list"

fun pushItem :: "string \<Rightarrow> 'a \<Rightarrow> 'a buckets \<Rightarrow> 'a buckets" where
  "pushItem key item [] = [(key, [item])]"
| "pushItem key item ((k, existing) # m) =
     (if k = key then (k, existing @ [item]) # m else (k, existing) # pushItem key item m)"

text \<open>Group items by a string key derived from each item.\<close>

definition groupBy :: "'a list \<Rightarrow> ('a \<Rightarrow> string) \<Rightarrow> 'a buckets" where
  "groupBy items keyFn = foldl (\<lambda>m item. pushItem (keyFn item) item m) [] items"

text \<open>
  \<open>array.sort(compareFn)\<close>: the sort is stable, and \<open>compareFn(a, b) \<le> 0\<close> keeps \<open>a\<close>
  before \<open>b\<close>. For a consistent comparator the result is the one of this stable insertion
  sort, whatever algorithm the engine runs.
\<close>

fun insertBy :: "('a \<Rightarrow> 'a \<Rightarrow> int) \<Rightarrow> 'a \<Rightarrow> 'a list \<Rightarrow> 'a list" where
  "insertBy cmp x [] = [x]"
| "insertBy cmp x (y # ys) = (if cmp x y \<le> 0 then x # y # ys else y # insertBy cmp x ys)"

definition sortBy :: "('a \<Rightarrow> 'a \<Rightarrow> int) \<Rightarrow> 'a list \<Rightarrow> 'a list" where
  "sortBy cmp xs = foldr (insertBy cmp) xs []"

text \<open>
  The comparator \<open>(a, b) => b[1].length - a[1].length || a[0].localeCompare(b[0])\<close>.
  \<open>String.prototype.localeCompare\<close> belongs to the JavaScript engine and its locale data;
  it is a parameter of the model.
\<close>

definition compareGroups ::
  "(string \<Rightarrow> string \<Rightarrow> int) \<Rightarrow> string \<times> 'a list \<Rightarrow> string \<times> 'a list \<Rightarrow> int" where
  "compareGroups localeCompare a b =
     (let d = int (length (snd b)) - int (length (snd a))
      in if d \<noteq> 0 then d else localeCompare (fst a) (fst b))"

text \<open>Filter grouped entries to only those meeting the minimum count, sorted descending.\<close>

definition filterDuplicateGroups ::
  "(string \<Rightarrow> string \<Rightarrow> int) \<Rightarrow> 'a buckets \<Rightarrow> int \<Rightarrow> 'a buckets" where
  "filterDuplicateGroups localeCompare groups minCount =
     sortBy (compareGroups localeCompare)
       (filter (\<lambda>(key, items). minCount \<le> int (length items)) groups)"

text \<open>
  The grouping pass of the command line program:
  \<open>filterDuplicateGroups(groupBy(declarations, keyFn), options.minCount)\<close>.
\<close>

definition duplicateGroups ::
  "(string \<Rightarrow> string \<Rightarrow> int) \<Rightarrow> 'a list \<Rightarrow> ('a \<Rightarrow> string) \<Rightarrow> int \<Rightarrow> 'a buckets" where
  "duplicateGroups localeCompare items keyFn minCount =
     filterDuplicateGroups localeCompare (groupBy items keyFn) minCount"

text \<open>
  What the properties below ask of \<open>localeCompare\<close>: it compares consistently, that is,
  \<open>localeCompare a b \<le> 0\<close> is a total and transitive relation.
\<close>

definition consistentComparator :: "('a \<Rightarrow> 'a \<Rightarrow> int) \<Rightarrow> bool" where
  "consistentComparator cmp \<longleftrightarrow>
     (\<forall>a b. cmp a b \<le> 0 \<or> cmp b a \<le> 0) \<and>
     (\<forall>a b c. cmp a b \<le> 0 \<longrightarrow> cmp b c \<le> 0 \<longrightarrow> cmp a c \<le> 0)"

text \<open>One such comparator: the lexicographic comparison of the code units.\<close>

definition codeUnitCompare :: "string \<Rightarrow> string \<Rightarrow> int" where
  "codeUnitCompare a b = (if a < b then - 1 else if a = b then 0 else 1)"

text \<open>
  What \<open>localeCompare\<close> returns for two strings of the letters A to Z and a to z, in the
  collation the engine has for its default locale: the strings are compared letter by
  letter without regard to case, a string coming before the strings it begins; two
  strings that differ only in case are compared by the case of their letters, place by
  place, lower case first. The collation of other characters is not modelled here; they
  are left in the order of their code units.
\<close>

definition isUpperCase :: "char \<Rightarrow> bool" where
  "isUpperCase c = (let n = (of_char c :: nat) in 65 \<le> n \<and> n \<le> 90)"

definition toLowerCase :: "char \<Rightarrow> char" where
  "toLowerCase c = (if isUpperCase c then char_of (of_char c + (32 :: nat)) else c)"

definition alphabeticalCompare :: "string \<Rightarrow> string \<Rightarrow> int" where
  "alphabeticalCompare a b =
     (let la = map toLowerCase a; lb = map toLowerCase b in
      if la < lb then - 1 else if lb < la then 1
      else
        let ua = map isUpperCase a; ub = map isUpperCase b in
        if ua < ub then - 1 else if ub < ua then 1 else 0)"

text \<open>
  The order of the report: a bucket comes before another when it has more members, or as
  many and a key that \<open>localeCompare\<close> does not put after the other's.
\<close>

definition groupOrder ::
  "(string \<Rightarrow> string \<Rightarrow> int) \<Rightarrow> string \<times> 'a list \<Rightarrow> string \<times> 'a list \<Rightarrow> bool" where
  "groupOrder localeCompare a b \<longleftrightarrow>
     length (snd b) < length (snd a) \<or>
     (length (snd a) = length (snd b) \<and> localeCompare (fst a) (fst b) \<le> 0)"

section \<open>Declaration extraction\<close>

datatype declarationKind = Interface | TypeAlias | Enum | Reexport

record declarationRecord =
  name :: string
  kind :: declarationKind
  filePath :: string
  line :: nat
  snippet :: string
  normalizedShape :: string
  isReExport :: bool
  propertyCount :: nat
  propertyNames :: "string list"

text \<open>
  The syntax tree is what \<open>ts.createSourceFile\<close> returns; the parser is not part of the
  program, so the tree is an input of the model. A node carries what the program reads
  from it: its kind with the name and the members of a declaration,
  \<open>node.getStart(sourceFile)\<close>, \<open>node.end\<close>, and the children \<open>ts.forEachChild\<close> visits,
  in that order. A member is a property signature with the text of its name, or anything
  else. An export specifier has its exported name \<open>el.name.text\<close> and, in
  \<open>export { a as b }\<close>, the original name \<open>el.propertyName\<close>.
\<close>

datatype member = PropertySignature string | OtherMember

datatype exportSpecifier = ExportSpecifier (exportedName: string) (propertyName: "string option")

datatype exportClause = NamedExports "exportSpecifier list" | NamespaceExport string

datatype syntaxKind =
    InterfaceDeclaration string "member list"
  | TypeAliasDeclaration string "member list option"
  | EnumDeclaration string "string list"
  | ExportDeclaration "string option" "exportClause option"
  | OtherSyntax

datatype node = Node (nodeKind: syntaxKind) (start: nat) (endPos: nat) (children: "node list")

text \<open>
  Of the source file the program reads the statements, which are also the children the
  traversal of the root visits, and \<open>getLineAndCharacterOfPosition(pos).line\<close>.
\<close>

record sourceFile =
  statements :: "node list"
  lineOfPosition :: "nat \<Rightarrow> nat"

definition getLine :: "sourceFile \<Rightarrow> node \<Rightarrow> nat" where
  "getLine sf n = lineOfPosition sf (start n) + 1"

fun propertySignatureNames :: "member list \<Rightarrow> string list" where
  "propertySignatureNames [] = []"
| "propertySignatureNames (PropertySignature n # ms) = n # propertySignatureNames ms"
| "propertySignatureNames (OtherMember # ms) = propertySignatureNames ms"

text \<open>\<open>names.sort()\<close> orders strings by their code units.\<close>

definition extractPropertyNames :: "node \<Rightarrow> string list" where
  "extractPropertyNames n =
     sort (case nodeKind n of
             InterfaceDeclaration _ members \<Rightarrow> propertySignatureNames members
           | TypeAliasDeclaration _ (Some members) \<Rightarrow> propertySignatureNames members
           | EnumDeclaration _ members \<Rightarrow> members
           | _ \<Rightarrow> [])"

text \<open>The records of one statement in \<open>collectReExportRecords\<close>.\<close>

definition reExportRecordsOf ::
  "sourceFile \<Rightarrow> string \<Rightarrow> string \<Rightarrow> node \<Rightarrow> declarationRecord list" where
  "reExportRecordsOf sf sourceText relativeFile statement =
     (case nodeKind statement of
        ExportDeclaration (Some moduleSpecifier) (Some (NamedExports elements)) \<Rightarrow>
          (let stmtSnippet = slice sourceText (start statement) (endPos statement) in
           map (\<lambda>el.
                 \<lparr> name = exportedName el,
                   kind = Reexport,
                   filePath = relativeFile,
                   line = getLine sf statement,
                   snippet = formatSnippet stmtSnippet MAX_SNIPPET_LENGTH,
                   normalizedShape = normalizeShape stmtSnippet (exportedName el),
                   isReExport = True,
                   propertyCount = 0,
                   propertyNames = [] \<rparr>)
             elements)
      | _ \<Rightarrow> [])"

text \<open>Collect names that are re-exported from other modules in a given file.\<close>

definition collectReExportRecords ::
  "sourceFile \<Rightarrow> string \<Rightarrow> string \<Rightarrow> declarationRecord list" where
  "collectReExportRecords sf sourceText relativeFile =
     concat (map (reExportRecordsOf sf sourceText relativeFile) (statements sf))"

text \<open>The kind and the name \<open>visit\<close> gives a node, if any.\<close>

definition classify :: "bool \<Rightarrow> syntaxKind \<Rightarrow> (declarationKind \<times> string) option" where
  "classify includeEnums syn =
     (case syn of
        InterfaceDeclaration n _ \<Rightarrow> Some (Interface, n)
      | TypeAliasDeclaration n _ \<Rightarrow> Some (TypeAlias, n)
      | EnumDeclaration n _ \<Rightarrow> if includeEnums then Some (Enum, n) else None
      | _ \<Rightarrow> None)"

text \<open>The record \<open>visit\<close> pushes for a node of kind \<open>k\<close> and name \<open>nm\<close>.\<close>

definition declarationRecordOf ::
  "sourceFile \<Rightarrow> string \<Rightarrow> string \<Rightarrow> declarationKind \<Rightarrow> string \<Rightarrow> node \<Rightarrow> declarationRecord" where
  "declarationRecordOf sf sourceText relativeFile k nm n =
     (let snip = slice sourceText (start n) (endPos n);
          props = extractPropertyNames n in
      \<lparr> name = nm,
        kind = k,
        filePath = relativeFile,
        line = getLine sf n,
        snippet = formatSnippet snip MAX_SNIPPET_LENGTH,
        normalizedShape = normalizeShape snip nm,
        isReExport = False,
        propertyCount = length props,
        propertyNames = props \<rparr>)"

text \<open>
  \<open>if (kind && name)\<close>: a name that is the empty string is falsy, and the node gives no
  record.
\<close>

definition nodeRecords ::
  "sourceFile \<Rightarrow> string \<Rightarrow> string \<Rightarrow> bool \<Rightarrow> node \<Rightarrow> declarationRecord list" where
  "nodeRecords sf sourceText relativeFile includeEnums n =
     (case classify includeEnums (nodeKind n) of
        None \<Rightarrow> []
      | Some (k, nm) \<Rightarrow>
          if nm = [] then [] else [declarationRecordOf sf sourceText relativeFile k nm n])"

fun visit ::
  "sourceFile \<Rightarrow> string \<Rightarrow> string \<Rightarrow> bool \<Rightarrow> node \<Rightarrow> declarationRecord list" where
  "visit sf sourceText relativeFile includeEnums (Node syn s e ch) =
     nodeRecords sf sourceText relativeFile includeEnums (Node syn s e ch)
     @ concat (map (visit sf sourceText relativeFile includeEnums) ch)"

text \<open>
  \<open>collectDeclarations(file, sourceText, options)\<close>. The parsed source file is an input
  of the model, and so is the value of \<open>relativeFile\<close>, which the program computes from
  \<open>file\<close> and the working directory of the process; \<open>relativeFile\<close> below is that
  computation.
\<close>

definition collectDeclarations ::
  "sourceFile \<Rightarrow> string \<Rightarrow> string \<Rightarrow> bool \<Rightarrow> declarationRecord list" where
  "collectDeclarations sf sourceText relativeFile includeEnums =
     collectReExportRecords sf sourceText relativeFile
     @ concat (map (visit sf sourceText relativeFile includeEnums) (statements sf))"

text \<open>
  \<open>const relativeFile = toPosix(path.relative(process.cwd(), file))\<close>: the value
  \<open>collectDeclarations\<close> computes for \<open>relativeFile\<close>. It reads the working directory
  of the process, \<open>cwd\<close>. \<open>path.relative\<close> belongs to the platform and is a parameter.
\<close>

definition relativeFile ::
  "(string \<Rightarrow> string \<Rightarrow> string) \<Rightarrow> char \<Rightarrow> string \<Rightarrow> string \<Rightarrow> string" where
  "relativeFile relative sep cwd file = toPosix sep (relative cwd file)"

text \<open>
  \<open>path.relative(from, to)\<close> on a POSIX platform, for two absolute paths other than the
  root, without \<open>.\<close> and \<open>..\<close> segments and without repeated or trailing slashes: the
  segments the two paths share at their start are dropped, \<open>..\<close> is written for each
  segment left of \<open>from\<close>, and the segments left of \<open>to\<close> follow.
\<close>

fun dropCommon :: "string list \<Rightarrow> string list \<Rightarrow> string list \<times> string list" where
  "dropCommon (x # xs) (y # ys) = (if x = y then dropCommon xs ys else (x # xs, y # ys))"
| "dropCommon xs ys = (xs, ys)"

definition posixRelative :: "string \<Rightarrow> string \<Rightarrow> string" where
  "posixRelative from to =
     (let (f, t) = dropCommon (splitOn CHR ''/'' from) (splitOn CHR ''/'' to)
      in joinWith ''/'' (map (\<lambda>s. ''..'') f @ t))"

text \<open>
  The nodes the traversal reaches from a node, in the order it reaches them, and the nodes
  of a source file.
\<close>

fun subnodes :: "node \<Rightarrow> node list" where
  "subnodes (Node syn s e ch) = Node syn s e ch # concat (map subnodes ch)"

definition allNodes :: "sourceFile \<Rightarrow> node list" where
  "allNodes sf = concat (map subnodes (statements sf))"

text \<open>
  What the parser guarantees of the positions in a tree: a node ends after it starts, its
  children lie inside it, and each child ends before the next one starts.
\<close>

fun wellFormedNode :: "node \<Rightarrow> bool" where
  "wellFormedNode (Node syn s e ch) \<longleftrightarrow>
     s \<le> e \<and> (\<forall>c \<in> set ch. wellFormedNode c \<and> s \<le> start c \<and> endPos c \<le> e)
     \<and> sorted_wrt (\<lambda>a b. endPos a \<le> start b) ch"

definition wellFormed :: "sourceFile \<Rightarrow> bool" where
  "wellFormed sf \<longleftrightarrow>
     (\<forall>n \<in> set (statements sf). wellFormedNode n)
     \<and> sorted_wrt (\<lambda>a b. endPos a \<le> start b) (statements sf)
     \<and> mono (lineOfPosition sf)"

section \<open>Command line arguments\<close>

definition MODES :: "string list" where
  "MODES = [''name'', ''shape'', ''both'']"

definition OUTPUT_FORMATS :: "string list" where
  "OUTPUT_FORMATS = [''text'', ''json'', ''markdown'']"

record cliOptions =
  root :: string
  mode :: string
  minCount :: int
  format :: string
  outputFile :: "string option"
  failOnDuplicates :: bool
  tsconfig :: "string option"
  exclude :: "string list"
  includeEnums :: bool
  skipReExports :: bool
  showHelp :: bool

text \<open>
  The errors \<open>parseArgs\<close> throws: \<open>Missing value for <flag>\<close>,
  \<open>Invalid value for <flag>: <value>. Expected: <allowed>\<close> and
  \<open>Invalid value for --min; expected integer >= 2\<close>.
\<close>

datatype error =
    MissingValue string
  | InvalidValue string string "string list"
  | InvalidMin

text \<open>\<open>argv[index]\<close>, which is \<open>undefined\<close> out of range.\<close>

definition argAt :: "string list \<Rightarrow> nat \<Rightarrow> string option" where
  "argAt argv index = (if index < length argv then Some (argv ! index) else None)"

text \<open>
  Read a \<open>--flag=value\<close> or \<open>--flag value\<close> string argument from argv. \<open>!arg\<close>,
  \<open>!value\<close> and \<open>!next\<close> hold of \<open>undefined\<close> and of the empty string.
\<close>

definition readStringArg ::
  "string list \<Rightarrow> nat \<Rightarrow> string \<Rightarrow> error + (string \<times> nat) option" where
  "readStringArg argv index flag =
     (case argAt argv index of
        None \<Rightarrow> Inr None
      | Some arg \<Rightarrow>
          if arg = [] then Inr None
          else
            let prefix = flag @ ''='' in
            if startsWith arg prefix then
              (let v = drop (length prefix) arg in
               if v = [] then Inl (MissingValue flag) else Inr (Some (v, index)))
            else if arg = flag then
              (case argAt argv (index + 1) of
                 None \<Rightarrow> Inl (MissingValue flag)
               | Some next \<Rightarrow>
                   if next = [] then Inl (MissingValue flag) else Inr (Some (next, index + 1)))
            else Inr None)"

text \<open>Read a validated enum-like string argument (e.g. \<open>--mode name\<close>).\<close>

definition readEnumArg ::
  "string list \<Rightarrow> nat \<Rightarrow> string \<Rightarrow> string list \<Rightarrow> error + (string \<times> nat) option" where
  "readEnumArg argv index flag allowed =
     (case readStringArg argv index flag of
        Inl e \<Rightarrow> Inl e
      | Inr None \<Rightarrow> Inr None
      | Inr (Some (v, nextIndex)) \<Rightarrow>
          if v \<in> set allowed then Inr (Some (v, nextIndex))
          else Inl (InvalidValue flag v allowed))"


text \<open>
  The body of the loop of \<open>parseArgs\<close> at index \<open>i\<close>, from its last section to its
  first; each section ends in \<open>continue\<close> when its flag is read and falls through to the
  next section otherwise. The result is the error thrown, or the options and the value of
  \<open>i\<close> when the body reaches \<open>continue\<close> or its end. \<open>Number\<close> is the engine's
  conversion of a string to a number; \<open>integerValue v\<close> stands for \<open>Number(v)\<close> when
  \<open>Number.isInteger\<close> holds of it, and is \<open>None\<close> otherwise.
\<close>

definition parseMin ::
  "(string \<Rightarrow> int option) \<Rightarrow> string list \<Rightarrow> nat \<Rightarrow> cliOptions \<Rightarrow> error + (cliOptions \<times> nat)" where
  "parseMin integerValue argv i options =
     (case readStringArg argv i ''--min'' of
        Inl e \<Rightarrow> Inl e
      | Inr (Some (v, nextIndex)) \<Rightarrow>
          (case integerValue v of
             None \<Rightarrow> Inl InvalidMin
           | Some k \<Rightarrow> if k < 2 then Inl InvalidMin else Inr (options\<lparr>minCount := k\<rparr>, nextIndex))
      | Inr None \<Rightarrow> Inr (options, i))"

definition parseExclude ::
  "(string \<Rightarrow> int option) \<Rightarrow> string list \<Rightarrow> nat \<Rightarrow> cliOptions \<Rightarrow> error + (cliOptions \<times> nat)" where
  "parseExclude integerValue argv i options =
     (case readStringArg argv i ''--exclude'' of
        Inl e \<Rightarrow> Inl e
      | Inr (Some (v, nextIndex)) \<Rightarrow>
          Inr (options\<lparr>exclude := exclude options @ splitOn CHR '','' v\<rparr>, nextIndex)
      | Inr None \<Rightarrow> parseMin integerValue argv i options)"

definition parseTsconfig ::
  "(string \<Rightarrow> int option) \<Rightarrow> string list \<Rightarrow> nat \<Rightarrow> cliOptions \<Rightarrow> error + (cliOptions \<times> nat)" where
  "parseTsconfig integerValue argv i options =
     (case readStringArg argv i ''--tsconfig'' of
        Inl e \<Rightarrow> Inl e
      | Inr (Some (v, nextIndex)) \<Rightarrow> Inr (options\<lparr>tsconfig := Some v\<rparr>, nextIndex)
      | Inr None \<Rightarrow> parseExclude integerValue argv i options)"

definition parseRoot ::
  "(string \<Rightarrow> int option) \<Rightarrow> string list \<Rightarrow> nat \<Rightarrow> cliOptions \<Rightarrow> error + (cliOptions \<times> nat)" where
  "parseRoot integerValue argv i options =
     (case readStringArg argv i ''--root'' of
        Inl e \<Rightarrow> Inl e
      | Inr (Some (v, nextIndex)) \<Rightarrow> Inr (options\<lparr>root := v\<rparr>, nextIndex)
      | Inr None \<Rightarrow> parseTsconfig integerValue argv i options)"

text \<open>\<open>readStringArg(argv, i, "--output") ?? readStringArg(argv, i, "--out")\<close>\<close>

definition parseOutput ::
  "(string \<Rightarrow> int option) \<Rightarrow> string list \<Rightarrow> nat \<Rightarrow> cliOptions \<Rightarrow> error + (cliOptions \<times> nat)" where
  "parseOutput integerValue argv i options =
     (case (case readStringArg argv i ''--output'' of
              Inr None \<Rightarrow> readStringArg argv i ''--out''
            | r \<Rightarrow> r) of
        Inl e \<Rightarrow> Inl e
      | Inr (Some (v, nextIndex)) \<Rightarrow> Inr (options\<lparr>outputFile := Some v\<rparr>, nextIndex)
      | Inr None \<Rightarrow> parseRoot integerValue argv i options)"

definition parseMode ::
  "(string \<Rightarrow> int option) \<Rightarrow> string list \<Rightarrow> nat \<Rightarrow> cliOptions \<Rightarrow> error + (cliOptions \<times> nat)" where
  "parseMode integerValue argv i options =
     (case readEnumArg argv i ''--mode'' MODES of
        Inl e \<Rightarrow> Inl e
      | Inr (Some (v, nextIndex)) \<Rightarrow> Inr (options\<lparr>mode := v\<rparr>, nextIndex)
      | Inr None \<Rightarrow> parseOutput integerValue argv i options)"

definition parseFormat ::
  "(string \<Rightarrow> int option) \<Rightarrow> string list \<Rightarrow> nat \<Rightarrow> cliOptions \<Rightarrow> error + (cliOptions \<times> nat)" where
  "parseFormat integerValue argv i options =
     (case readEnumArg argv i ''--format'' OUTPUT_FORMATS of
        Inl e \<Rightarrow> Inl e
      | Inr (Some (v, nextIndex)) \<Rightarrow> Inr (options\<lparr>format := v\<rparr>, nextIndex)
      | Inr None \<Rightarrow> parseMode integerValue argv i options)"

definition parseArg ::
  "(string \<Rightarrow> int option) \<Rightarrow> string list \<Rightarrow> nat \<Rightarrow> cliOptions \<Rightarrow> error + (cliOptions \<times> nat)" where
  "parseArg integerValue argv i options =
     (case argAt argv i of
        None \<Rightarrow> Inr (options, i)
      | Some arg \<Rightarrow>
        if arg = [] then Inr (options, i)
        else if arg = ''--json'' then Inr (options\<lparr>format := ''json''\<rparr>, i)
        else if arg = ''--markdown'' \<or> arg = ''--md'' then Inr (options\<lparr>format := ''markdown''\<rparr>, i)
        else if arg = ''--help'' \<or> arg = ''-h'' then Inr (options\<lparr>showHelp := True\<rparr>, i)
        else if arg = ''--fail-on-duplicates'' then Inr (options\<lparr>failOnDuplicates := True\<rparr>, i)
        else if arg = ''--no-enums'' then Inr (options\<lparr>includeEnums := False\<rparr>, i)
        else if arg = ''--include-reexports'' then Inr (options\<lparr>skipReExports := False\<rparr>, i)
        else parseFormat integerValue argv i options)"

text \<open>
  \<open>for (let i = 0; i < argv.length; i++) { ... }\<close>. Every section leaves \<open>i\<close> where it
  is or moves it to the next slot, so the loop ends.
\<close>

function parseLoop ::
  "(string \<Rightarrow> int option) \<Rightarrow> string list \<Rightarrow> nat \<Rightarrow> cliOptions \<Rightarrow> error + cliOptions" where
  "parseLoop integerValue argv i options =
     (if i < length argv then
        (case parseArg integerValue argv i options of
           Inl e \<Rightarrow> Inl e
         | Inr (options', i') \<Rightarrow> parseLoop integerValue argv (i' + 1) options')
      else Inr options)"
  by pat_completeness auto
termination
proof (relation "measure (\<lambda>(integerValue, argv, i, options). length argv - i)")
  show "wf (measure (\<lambda>(integerValue, argv, i, options). length argv - i))"
    by simp
next
  fix integerValue :: "string \<Rightarrow> int option"
    and argv :: "string list" and i :: nat and options x2 :: cliOptions and x i'
  assume lt: "i < length argv"
    and res: "parseArg integerValue argv i options = Inr x" "(x2, i') = x"
  have rs: "i \<le> n" if "readStringArg argv i f = Inr (Some (v, n))" for f v n
    using that unfolding readStringArg_def
    by (auto simp: Let_def split: option.splits if_splits)
  have re: "i \<le> n" if "readEnumArg argv i f al = Inr (Some (v, n))" for f al v n
    using that rs unfolding readEnumArg_def
    by (auto split: sum.splits option.splits if_splits)
  have s1: "i \<le> n" if "parseMin integerValue argv i opts = Inr (o', n)" for opts o' n
    using that rs unfolding parseMin_def
    by (auto split: sum.splits option.splits if_splits)
  have s2: "i \<le> n" if "parseExclude integerValue argv i opts = Inr (o', n)" for opts o' n
    using that rs s1 unfolding parseExclude_def
    by (auto split: sum.splits option.splits)
  have s3: "i \<le> n" if "parseTsconfig integerValue argv i opts = Inr (o', n)" for opts o' n
    using that rs s2 unfolding parseTsconfig_def
    by (auto split: sum.splits option.splits)
  have s4: "i \<le> n" if "parseRoot integerValue argv i opts = Inr (o', n)" for opts o' n
    using that rs s3 unfolding parseRoot_def
    by (auto split: sum.splits option.splits)
  have s5: "i \<le> n" if "parseOutput integerValue argv i opts = Inr (o', n)" for opts o' n
    using that rs s4 unfolding parseOutput_def
    by (auto split: sum.splits option.splits)
  have s6: "i \<le> n" if "parseMode integerValue argv i opts = Inr (o', n)" for opts o' n
    using that re s5 unfolding parseMode_def
    by (auto split: sum.splits option.splits)
  have s7: "i \<le> n" if "parseFormat integerValue argv i opts = Inr (o', n)" for opts o' n
    using that re s6 unfolding parseFormat_def
    by (auto split: sum.splits option.splits)
  from res have "parseArg integerValue argv i options = Inr (x2, i')"
    by simp
  then have "i \<le> i'"
    using s7 unfolding parseArg_def
    by (auto split: option.splits if_splits)
  with lt show "((integerValue, argv, i' + 1, x2), (integerValue, argv, i, options))
        \<in> measure (\<lambda>(integerValue, argv, i, options). length argv - i)"
    by simp
qed



definition valueFlags :: "string list" where
  "valueFlags = [''--format'', ''--mode'', ''--output'', ''--out'', ''--root'',
     ''--tsconfig'', ''--exclude'', ''--min'']"

definition isValueFlag :: "string \<Rightarrow> bool" where
  "isValueFlag arg = (\<exists>flag \<in> set valueFlags. arg = flag \<or> startsWith arg (flag @ ''=''))"





text \<open>An index returned for a suffix of argv, counted in argv.\<close>

definition shiftIndex :: "nat \<Rightarrow> 'a + ('b \<times> nat) \<Rightarrow> 'a + ('b \<times> nat)" where
  "shiftIndex d r = (case r of Inl e \<Rightarrow> Inl e | Inr (x, n) \<Rightarrow> Inr (x, d + n))"

section \<open>Source units used as examples\<close>

text \<open>
  The unit \<open>export { Foo as Bar } from "./m"\<close> with the tree the parser gives it: one
  export declaration from position 0 to 32, with its named exports and its module
  specifier below it. The line table of the source file is a parameter.
\<close>

definition aliasText :: string where
  \<open>aliasText = ''export { Foo as Bar } from "./m"''\<close>

definition aliasUnit :: "(nat \<Rightarrow> nat) \<Rightarrow> sourceFile" where
  "aliasUnit lineOf =
     \<lparr> statements =
         [Node (ExportDeclaration (Some ''./m'')
                 (Some (NamedExports [ExportSpecifier ''Bar'' (Some ''Foo'')])))
            0 32
            [Node OtherSyntax 7 21 [Node OtherSyntax 9 19 []], Node OtherSyntax 27 32 []]],
       lineOfPosition = lineOf \<rparr>"

text \<open>The unit \<open>export * from "./m"\<close>: an export declaration without an export clause.\<close>

definition wildcardText :: string where
  \<open>wildcardText = ''export * from "./m"''\<close>

definition wildcardUnit :: "(nat \<Rightarrow> nat) \<Rightarrow> sourceFile" where
  "wildcardUnit lineOf =
     \<lparr> statements =
         [Node (ExportDeclaration (Some ''./m'') None) 0 19 [Node OtherSyntax 14 19 []]],
       lineOfPosition = lineOf \<rparr>"

text \<open>
  A unit of three lines: a re-export, an enum, and an interface written with two spaces
  after its keyword.
\<close>

definition mixedText :: string where
  \<open>mixedText = ''export { A } from "./m";'' @ [CHR 0x0A] @ ''enum Color { Red }'' @ [CHR 0x0A]
     @ ''interface  Foo { bar: string; }''\<close>

definition mixedUnit :: sourceFile where
  "mixedUnit =
     \<lparr> statements =
         [Node (ExportDeclaration (Some ''./m'') (Some (NamedExports [ExportSpecifier ''A'' None])))
            0 24 [Node OtherSyntax 7 12 [Node OtherSyntax 9 10 []], Node OtherSyntax 18 23 []],
          Node (EnumDeclaration ''Color'' [''Red'']) 25 43
            [Node OtherSyntax 30 35 [], Node OtherSyntax 38 41 []],
          Node (InterfaceDeclaration ''Foo'' [PropertySignature ''bar'']) 44 75
            [Node OtherSyntax 55 58 [], Node OtherSyntax 61 73 []]],
       lineOfPosition = (\<lambda>p. if p < 25 then 0 else if p < 44 then 1 else 2) \<rparr>"

text \<open>
  A unit of three lines in which the re-export is the second statement: an interface, the
  statement \<open>export { Foo, Bar } from "./m"\<close> from position 26 to 56, and a wildcard
  re-export.
\<close>

definition laterText :: string where
  \<open>laterText = ''interface A { x: number }'' @ [CHR 0x0A] @ ''export { Foo, Bar } from "./m"''
     @ [CHR 0x0A] @ ''export * from "./n"''\<close>

definition laterUnit :: sourceFile where
  "laterUnit =
     \<lparr> statements =
         [Node (InterfaceDeclaration ''A'' [PropertySignature ''x'']) 0 25
            [Node OtherSyntax 10 11 [], Node OtherSyntax 14 23 []],
          Node (ExportDeclaration (Some ''./m'')
                 (Some (NamedExports [ExportSpecifier ''Foo'' None, ExportSpecifier ''Bar'' None])))
            26 56
            [Node OtherSyntax 33 45 [Node OtherSyntax 35 38 [], Node OtherSyntax 40 43 []],
             Node OtherSyntax 51 56 []],
          Node (ExportDeclaration (Some ''./n'') None) 57 76 [Node OtherSyntax 71 76 []]],
       lineOfPosition = (\<lambda>p. if p < 26 then 0 else if p < 57 then 1 else 2) \<rparr>"

definition fooRecord :: declarationRecord where
  "fooRecord =
     \<lparr> name = ''Foo'', kind = Interface, filePath = ''a.ts'', line = 3,
       snippet = ''interface Foo { bar: string; }'',
       normalizedShape = ''type __NAME__ = { bar: string; }'',
       isReExport = False, propertyCount = 1, propertyNames = [''bar''] \<rparr>"

text \<open>A record whose fingerprint is the empty string.\<close>

definition emptyShapeRecord :: "string \<Rightarrow> declarationRecord" where
  "emptyShapeRecord nm =
     \<lparr> name = nm, kind = TypeAlias, filePath = ''a.ts'', line = 1, snippet = [],
       normalizedShape = [], isReExport = False, propertyCount = 0, propertyNames = [] \<rparr>"

section \<open>Properties of the fingerprint\<close>

subsection \<open>Matching the escaped name\<close>

lemma space_not_word: "isSpace c \<Longrightarrow> \<not> isWordChar c"
  by (auto simp: isSpace_def isWordChar_def)






subsection \<open>Words and junctions\<close>

lemma junction_simps [simp]:
  "junction [] y" "junction x []"
  by (simp_all add: junction_def)

lemma junction_Cons: "junction (c # cs) y \<Longrightarrow> cs \<noteq> [] \<Longrightarrow> junction cs y"
  by (auto simp: junction_def)

lemma words_append:
  "junction x y \<Longrightarrow> words (x @ y) = words x @ words y"
proof (induction x rule: words.induct)
  case 1
  then show ?case by simp
next
  case (2 c cs)
  show ?case
  proof (cases "isWordChar c")
    case False
    show ?thesis
    proof (cases "cs = []")
      case True
      with False show ?thesis by simp
    next
      case ne: False
      from junction_Cons [OF "2.prems" ne] "2.IH"(2) [OF False] False
      show ?thesis by simp
    qed
  next
    case True
    show ?thesis
    proof (cases "\<forall>x \<in> set cs. isWordChar x")
      case all: True
      then have tw: "takeWhile isWordChar cs = cs" "dropWhile isWordChar cs = []"
        by simp_all
      show ?thesis
      proof (cases y)
        case Nil
        then show ?thesis by simp
      next
        case (Cons d ds)
        from "2.prems" True all Cons have "\<not> isWordChar d"
          by (auto simp: junction_def split: if_splits)
        with Cons all True show ?thesis
          by (simp add: takeWhile_append2 dropWhile_append2 tw)
      qed
    next
      case False
      then obtain x where x: "x \<in> set cs" "\<not> isWordChar x" by blast
      then have tw: "takeWhile isWordChar (cs @ y) = takeWhile isWordChar cs"
        "dropWhile isWordChar (cs @ y) = dropWhile isWordChar cs @ y"
        by (simp_all add: takeWhile_append1 dropWhile_append1)
      from x have ne: "dropWhile isWordChar cs \<noteq> []"
        by (auto simp: dropWhile_eq_Nil_conv)
      then have "last (dropWhile isWordChar cs) = last cs"
        by (metis append_is_Nil_conv last_appendR takeWhile_dropWhile_id)
      moreover from ne have "cs \<noteq> []" by auto
      ultimately have "junction (dropWhile isWordChar cs) y"
        using "2.prems" by (auto simp: junction_def)
      from "2.IH"(1) [OF True this] True tw show ?thesis
        by simp
    qed
  qed
qed

lemma words_token:
  assumes "tok \<noteq> []" "\<forall>c \<in> set tok. isWordChar c" "rest = [] \<or> \<not> isWordChar (hd rest)"
  shows "words (tok @ rest) = tok # words rest"
proof -
  obtain c cs where tok: "tok = c # cs" using assms(1) by (cases tok) auto
  with assms(2) have "words tok = [tok]"
    by (simp add: takeWhile_eq_all_conv [THEN iffD2] dropWhile_eq_Nil_conv [THEN iffD2])
  moreover have "junction tok rest"
    using assms(3) by (auto simp: junction_def)
  ultimately show ?thesis
    by (simp add: words_append)
qed

lemma words_nonword:
  assumes "\<forall>c \<in> set s. \<not> isWordChar c"
  shows "words s = []"
  using assms by (induction s) auto

lemma words_dropWhile_space: "words (dropWhile isSpace s) = words s"
  by (induction s) (auto simp: space_not_word)

lemma words_butlast_nonword:
  "\<not> isWordChar c \<Longrightarrow> words (s @ [c]) = words s"
  by (simp add: words_append junction_def)

lemma words_rev_dropWhile_space: "words (rev (dropWhile isSpace (rev s))) = words s"
proof (induction s rule: rev_induct)
  case Nil
  then show ?case by simp
next
  case (snoc c s)
  then show ?case
    by (auto simp: words_butlast_nonword space_not_word)
qed

lemma words_trim: "words (trim s) = words s"
  by (simp add: trim_def words_rev_dropWhile_space words_dropWhile_space)


subsection \<open>Whole-word occurrences\<close>








subsection \<open>Replacing the name\<close>

declare replaceAll.simps [simp del] replaceFirst.simps [simp del]









subsection \<open>The single replacements\<close>


lemma startsWith_Cons: "startsWith s (c # p) \<longleftrightarrow> (\<exists>t. s = c # t \<and> startsWith t p)"
  by (cases s) (auto simp: startsWith_def)

lemma startsWith_Nil [simp]: "startsWith s []"
  by (simp add: startsWith_def)











lemma last_take_nth: "0 < k \<Longrightarrow> k \<le> length rest \<Longrightarrow> last (take k rest) = rest ! (k - 1)"
  by (cases k) (auto simp: take_Suc_conv_app_nth)










subsection \<open>Global replacement in general\<close>


lemma replaceAll_pass:
  assumes "\<And>c p r. c \<in> set pre \<Longrightarrow> m p (c # r) = None"
  shows "replaceAll m rep p (pre @ s) = pre @ replaceAll m rep (lastOr p pre) s"
  using assms
proof (induction pre arbitrary: p)
  case Nil
  then show ?case by (simp add: lastOr_def)
next
  case (Cons c pre)
  have "m p (c # pre @ s) = None" using Cons.prems by simp
  moreover have "replaceAll m rep (Some c) (pre @ s) = pre @ replaceAll m rep (lastOr (Some c) pre) s"
    using Cons.prems by (intro Cons.IH) simp
  ultimately show ?case
    by (simp add: replaceAll.simps lastOr_def)
qed

lemma replaceAll_Nil_None: "m p [] = None \<Longrightarrow> replaceAll m rep p [] = []"
  by (simp add: replaceAll.simps)

lemma replaceAll_Cons_None:
  "m p (c # cs) = None \<Longrightarrow> replaceAll m rep p (c # cs) = c # replaceAll m rep (Some c) cs"
  by (simp add: replaceAll.simps)

lemma replaceAll_Cons_Some:
  "m p (c # cs) = Some (Suc k) \<Longrightarrow>
     replaceAll m rep p (c # cs)
       = rep @ replaceAll m rep (Some (last (take (Suc k) (c # cs)))) (drop k cs)"
  by (simp add: replaceAll.simps)

lemma words_replaceAll_separating:
  assumes "separating m" "rep \<noteq> []" "\<forall>c \<in> set rep. \<not> isWordChar c"
  shows "set (words (replaceAll m rep p s)) \<subseteq> set (words s)
         \<and> (s = [] \<or> \<not> isWordChar (hd s) \<longrightarrow>
              replaceAll m rep p s = [] \<or> \<not> isWordChar (hd (replaceAll m rep p s)))"
proof (induction s arbitrary: p rule: length_induct)
  case (1 s)
  note sep = assms(1) [unfolded separating_def, rule_format]
  have none_word: "m q (c # r) = None" if "isWordChar c" for q c r
    using sep [of q "c # r"] that by (cases "m q (c # r)") auto
  show ?case
  proof (cases s)
    case Nil
    have "m p [] = None"
      using sep [of p "[]"] by (cases "m p []") auto
    with Nil show ?thesis by (simp add: replaceAll_Nil_None)
  next
    case (Cons c cs)
    show ?thesis
    proof (cases "m p (c # cs)")
      case (Some k)
      from sep [OF Some] have nw: "\<not> isWordChar c" and k: "0 < k"
        and j: "junction (take k (c # cs)) (drop k (c # cs))"
        by simp_all
      from k obtain k' where k': "k = Suc k'" by (cases k) auto
      let ?Y = "replaceAll m rep (Some (last (take (Suc k') (c # cs)))) (drop k' cs)"
      have r: "replaceAll m rep p (c # cs) = rep @ ?Y"
        using Some k' by (simp add: replaceAll_Cons_Some)
      have "length (drop k' cs) < length s" using Cons by simp
      with "1.IH" have ih: "set (words ?Y) \<subseteq> set (words (drop k' cs))"
        by blast
      have "words (c # cs) = words (take k (c # cs)) @ words (drop k (c # cs))"
        using words_append [OF j] by simp
      then have sub: "set (words (drop k' cs)) \<subseteq> set (words (c # cs))"
        using k' by auto
      have "junction rep ?Y"
        using assms(2,3) by (simp add: junction_def)
      then have "words (rep @ ?Y) = words ?Y"
        using words_nonword [OF assms(3)] by (simp add: words_append)
      with ih sub have 1: "set (words (replaceAll m rep p s)) \<subseteq> set (words s)"
        unfolding Cons r by auto
      have 2: "\<not> isWordChar (hd (replaceAll m rep p s))"
        unfolding Cons r using assms(2,3) by (cases rep) auto
      from 1 2 show ?thesis by simp
    next
      case None
      show ?thesis
      proof (cases "isWordChar c")
        case False
        have "length cs < length s" using Cons by simp
        with "1.IH" have "set (words (replaceAll m rep (Some c) cs)) \<subseteq> set (words cs)"
          by blast
        with False None Cons show ?thesis
          by (simp add: replaceAll_Cons_None)
      next
        case True
        let ?tok = "c # takeWhile isWordChar cs"
        let ?rest = "dropWhile isWordChar cs"
        let ?X = "replaceAll m rep (lastOr p ?tok) ?rest"
        have s: "s = ?tok @ ?rest" using Cons by simp
        have "replaceAll m rep p (?tok @ ?rest) = ?tok @ ?X"
          by (rule replaceAll_pass) (use True none_word in \<open>auto dest: set_takeWhileD\<close>)
        then have r: "replaceAll m rep p s = ?tok @ ?X"
          using s by simp
        have "length ?rest < length s"
          using Cons length_dropWhile_le [of isWordChar cs] by simp
        with "1.IH" have ih: "set (words ?X) \<subseteq> set (words ?rest)"
          "?rest = [] \<or> \<not> isWordChar (hd ?rest) \<longrightarrow> ?X = [] \<or> \<not> isWordChar (hd ?X)"
          by blast+
        have "?rest = [] \<or> \<not> isWordChar (hd ?rest)"
          using hd_dropWhile [of isWordChar cs] by blast
        with ih(2) have X: "?X = [] \<or> \<not> isWordChar (hd ?X)" by blast
        have "words (?tok @ ?X) = ?tok # words ?X"
          by (rule words_token [OF _ _ X]) (use True in \<open>auto dest: set_takeWhileD\<close>)
        with ih(1) True show ?thesis
          unfolding r by (auto simp: Cons)
      qed
    qed
  qed
qed

lemma words_replaceAll_subset:
  assumes "separating m"
  shows "set (words (replaceAll m '' '' p s)) \<subseteq> set (words s)"
  using words_replaceAll_separating [OF assms, of "'' ''" p s]
  by (simp add: isWordChar_def)

subsection \<open>The patterns of normalizeWhitespace\<close>

lemma findClose_Some:
  "findClose s = Some j \<Longrightarrow> 2 \<le> j \<and> j \<le> length s \<and> s ! (j - 1) = CHR ''/''"
proof (induction s arbitrary: j rule: findClose.induct)
  case (1 a b r)
  show ?case
  proof (cases "a = CHR ''*'' \<and> b = CHR ''/''")
    case True
    with "1.prems" show ?thesis by auto
  next
    case False
    with "1.prems" obtain j' where j': "findClose (b # r) = Some j'" "j = Suc j'"
      by auto
    from "1.IH" [OF False j'(1)] j'(2) show ?thesis
      by (cases j') auto
  qed
qed simp_all

lemma blockComment_Some:
  assumes "blockComment p r = Some k"
  shows "\<exists>t j. r = CHR ''/'' # CHR ''*'' # t \<and> findClose t = Some j \<and> k = 2 + j"
  using assms
  by (auto simp: blockComment_def startsWith_Cons split: if_splits)

lemma separating_blockComment: "separating blockComment"
  unfolding separating_def
proof (intro allI impI)
  fix p r k
  assume "blockComment p r = Some k"
  from blockComment_Some [OF this] obtain t j
    where r: "r = CHR ''/'' # CHR ''*'' # t" and j: "findClose t = Some j" and k: "k = 2 + j"
    by blast
  from findClose_Some [OF j] have "2 \<le> j" "j \<le> length t" "t ! (j - 1) = CHR ''/''"
    by simp_all
  then have "take j t \<noteq> []" "last (take j t) = CHR ''/''"
    using last_take_nth [of j t] by auto
  then have "last (take k r) = CHR ''/''"
    unfolding r k by simp
  then have "junction (take k r) (drop k r)"
    by (simp add: junction_def isWordChar_def)
  with r k show "r \<noteq> [] \<and> \<not> isWordChar (hd r) \<and> 0 < k \<and> junction (take k r) (drop k r)"
    by (simp add: isWordChar_def)
qed

lemma lineTerminator_not_word: "isLineTerminator c \<Longrightarrow> \<not> isWordChar c"
  by (auto simp: isLineTerminator_def isWordChar_def)

lemma lineComment_Some:
  assumes "lineComment p r = Some k"
  shows "\<exists>t. r = CHR ''/'' # CHR ''/'' # t
     \<and> k = 2 + length (takeWhile (\<lambda>c. \<not> isLineTerminator c) t)"
  using assms
  by (auto simp: lineComment_def startsWith_Cons split: if_splits)

lemma separating_lineComment: "separating lineComment"
  unfolding separating_def
proof (intro allI impI)
  fix p r k
  assume "lineComment p r = Some k"
  from lineComment_Some [OF this] obtain t
    where r: "r = CHR ''/'' # CHR ''/'' # t"
      and k: "k = 2 + length (takeWhile (\<lambda>c. \<not> isLineTerminator c) t)"
    by blast
  have "drop k r = dropWhile (\<lambda>c. \<not> isLineTerminator c) t"
    unfolding r k by (simp add: dropWhile_eq_drop)
  moreover have "dropWhile (\<lambda>c. \<not> isLineTerminator c) t = []
      \<or> isLineTerminator (hd (dropWhile (\<lambda>c. \<not> isLineTerminator c) t))"
    using hd_dropWhile [of "\<lambda>c. \<not> isLineTerminator c" t] by blast
  ultimately have "junction (take k r) (drop k r)"
    by (auto simp: junction_def dest: lineTerminator_not_word)
  with r k show "r \<noteq> [] \<and> \<not> isWordChar (hd r) \<and> 0 < k \<and> junction (take k r) (drop k r)"
    by (simp add: isWordChar_def)
qed

lemma whitespaceRun_eq:
  "whitespaceRun p r =
     (if r \<noteq> [] \<and> isSpace (hd r) then Some (length (takeWhile isSpace r)) else None)"
  by (cases r) (auto simp: whitespaceRun_def)

lemma separating_whitespaceRun: "separating whitespaceRun"
  unfolding separating_def
proof (intro allI impI)
  fix p r k
  assume "whitespaceRun p r = Some k"
  then have r: "r \<noteq> []" "isSpace (hd r)" and k: "k = length (takeWhile isSpace r)"
    by (auto simp: whitespaceRun_eq split: if_splits)
  from r have ne: "takeWhile isSpace r \<noteq> []" by (cases r) auto
  have t: "take k r = takeWhile isSpace r"
    unfolding k by (rule takeWhile_eq_take [symmetric])
  from ne have "isSpace (last (takeWhile isSpace r))"
    by (metis last_in_set set_takeWhileD)
  with ne t have "junction (take k r) (drop k r)"
    by (simp add: junction_def space_not_word)
  with r ne k show "r \<noteq> [] \<and> \<not> isWordChar (hd r) \<and> 0 < k \<and> junction (take k r) (drop k r)"
    by (simp add: space_not_word)
qed

lemma words_normalizeWhitespace: "set (words (normalizeWhitespace s)) \<subseteq> set (words s)"
proof -
  let ?b = "replaceAll blockComment '' '' None s"
  let ?l = "replaceAll lineComment '' '' None ?b"
  let ?w = "replaceAll whitespaceRun '' '' None ?l"
  have "set (words ?w) \<subseteq> set (words ?l)"
    by (rule words_replaceAll_subset [OF separating_whitespaceRun])
  also have "\<dots> \<subseteq> set (words ?b)"
    by (rule words_replaceAll_subset [OF separating_lineComment])
  also have "\<dots> \<subseteq> set (words s)"
    by (rule words_replaceAll_subset [OF separating_blockComment])
  finally show ?thesis
    by (simp add: normalizeWhitespace_def words_trim)
qed

subsection \<open>Declaration heads\<close>























subsection \<open>Inserted comments and whitespace\<close>




















lemma ws_Nil: "replaceAll whitespaceRun rep None [] = []"
  by (simp add: replaceAll_Nil_None whitespaceRun_def)

























section \<open>Properties of the grouping\<close>

lemma set_insertBy: "set (insertBy cmp x xs) = insert x (set xs)"
  by (induction xs) auto

lemma set_sortBy: "set (sortBy cmp xs) = set xs"
  unfolding sortBy_def by (induction xs) (auto simp: set_insertBy)

lemma distinct_map_insertBy:
  "distinct (map f (insertBy cmp x xs)) \<longleftrightarrow> distinct (map f (x # xs))"
  by (induction xs) (auto simp: set_insertBy)

lemma distinct_map_sortBy: "distinct (map f (sortBy cmp xs)) \<longleftrightarrow> distinct (map f xs)"
  unfolding sortBy_def
  by (induction xs) (auto simp: distinct_map_insertBy set_sortBy [unfolded sortBy_def])

lemma sorted_wrt_insertBy:
  assumes tot: "\<And>a b. cmp a b \<le> 0 \<or> cmp b a \<le> 0"
    and tr: "\<And>a b c. cmp a b \<le> 0 \<Longrightarrow> cmp b c \<le> 0 \<Longrightarrow> cmp a c \<le> 0"
    and srt: "sorted_wrt (\<lambda>a b. cmp a b \<le> 0) xs"
  shows "sorted_wrt (\<lambda>a b. cmp a b \<le> 0) (insertBy cmp x xs)"
  using srt
proof (induction xs)
  case Nil
  then show ?case by simp
next
  case (Cons y ys)
  show ?case
  proof (cases "cmp x y \<le> 0")
    case True
    with Cons.prems tr show ?thesis by auto
  next
    case False
    with tot have "cmp y x \<le> 0" by blast
    with False Cons show ?thesis by (auto simp: set_insertBy)
  qed
qed

lemma sorted_wrt_sortBy:
  assumes "consistentComparator cmp"
  shows "sorted_wrt (\<lambda>a b. cmp a b \<le> 0) (sortBy cmp xs)"
proof -
  from assms have tot: "\<And>a b. cmp a b \<le> 0 \<or> cmp b a \<le> 0"
    and tr: "\<And>a b c. cmp a b \<le> 0 \<Longrightarrow> cmp b c \<le> 0 \<Longrightarrow> cmp a c \<le> 0"
    unfolding consistentComparator_def by blast+
  show ?thesis
    unfolding sortBy_def
    by (induction xs) (auto intro: sorted_wrt_insertBy [OF tot tr])
qed

lemma compareGroups_le: "compareGroups lc a b \<le> 0 \<longleftrightarrow> groupOrder lc a b"
  by (auto simp: compareGroups_def groupOrder_def Let_def)

lemma compareGroups_consistent:
  assumes "consistentComparator lc"
  shows "consistentComparator (compareGroups lc :: string \<times> 'a list \<Rightarrow> _)"
proof -
  from assms have tot: "\<And>a b. lc a b \<le> 0 \<or> lc b a \<le> 0"
    and tr: "\<And>a b c. lc a b \<le> 0 \<Longrightarrow> lc b c \<le> 0 \<Longrightarrow> lc a c \<le> 0"
    unfolding consistentComparator_def by blast+
  have "groupOrder lc a b \<or> groupOrder lc b a" for a b :: "string \<times> 'a list"
    using tot [of "fst a" "fst b"] unfolding groupOrder_def by auto
  moreover have "groupOrder lc a c" if "groupOrder lc a b" "groupOrder lc b c"
    for a b c :: "string \<times> 'a list"
    using that tr [of "fst a" "fst b" "fst c"] unfolding groupOrder_def by auto
  ultimately show ?thesis
    unfolding consistentComparator_def compareGroups_le by blast
qed

lemma codeUnitCompare_consistent: "consistentComparator codeUnitCompare"
  unfolding consistentComparator_def codeUnitCompare_def by auto

lemma map_of_pushItem:
  "map_of (pushItem k x m) =
     (map_of m)(k \<mapsto> (case map_of m k of None \<Rightarrow> [x] | Some v \<Rightarrow> v @ [x]))"
  by (induction m) (auto simp: fun_eq_iff)

lemma keys_pushItem:
  "map fst (pushItem k x m) = (if k \<in> fst ` set m then map fst m else map fst m @ [k])"
  by (induction m) force+

lemma foldl_pushItem_distinct:
  "distinct (map fst m) \<Longrightarrow>
   distinct (map fst (foldl (\<lambda>m item. pushItem (keyFn item) item m) m items))"
  by (induction items arbitrary: m) (auto simp: keys_pushItem)

lemma foldl_pushItem_map_of:
  "map_of (foldl (\<lambda>m item. pushItem (keyFn item) item m) m items) k =
     (case map_of m k of
        None \<Rightarrow> if k \<in> keyFn ` set items then Some (filter (\<lambda>r. keyFn r = k) items) else None
      | Some v \<Rightarrow> Some (v @ filter (\<lambda>r. keyFn r = k) items))"
proof (induction items arbitrary: m)
  case Nil
  then show ?case by (simp split: option.splits)
next
  case (Cons a items)
  show ?case
    by (simp add: Cons.IH map_of_pushItem split: option.splits)
qed

lemma groupBy_distinct: "distinct (map fst (groupBy items keyFn))"
  unfolding groupBy_def by (rule foldl_pushItem_distinct) simp

lemma groupBy_member:
  "(k, ms) \<in> set (groupBy items keyFn) \<longleftrightarrow>
     k \<in> keyFn ` set items \<and> ms = filter (\<lambda>r. keyFn r = k) items"
proof -
  have "(k, ms) \<in> set (groupBy items keyFn) \<longleftrightarrow> map_of (groupBy items keyFn) k = Some ms"
    using groupBy_distinct [of items keyFn] by simp
  also have "map_of (groupBy items keyFn) k =
      (if k \<in> keyFn ` set items then Some (filter (\<lambda>r. keyFn r = k) items) else None)"
    unfolding groupBy_def by (simp add: foldl_pushItem_map_of)
  finally show ?thesis by auto
qed

lemma duplicateGroups_member:
  "(k, ms) \<in> set (duplicateGroups lc items keyFn threshold) \<longleftrightarrow>
     k \<in> keyFn ` set items \<and> ms = filter (\<lambda>r. keyFn r = k) items \<and> threshold \<le> int (length ms)"
  unfolding duplicateGroups_def filterDuplicateGroups_def
  by (auto simp: set_sortBy groupBy_member)

lemma duplicateGroups_key:
  "k \<in> fst ` set (duplicateGroups lc items keyFn threshold) \<longleftrightarrow>
     k \<in> keyFn ` set items \<and> threshold \<le> int (length (filter (\<lambda>r. keyFn r = k) items))"
proof -
  have "k \<in> fst ` set (duplicateGroups lc items keyFn threshold) \<longleftrightarrow>
      (\<exists>ms. (k, ms) \<in> set (duplicateGroups lc items keyFn threshold))"
    by force
  then show ?thesis
    by (simp add: duplicateGroups_member)
qed

lemma duplicateGroups_distinct: "distinct (map fst (duplicateGroups lc items keyFn threshold))"
  unfolding duplicateGroups_def filterDuplicateGroups_def
  by (simp add: distinct_map_sortBy distinct_map_filter groupBy_distinct)

text \<open>
  C3, as amended. The grouping has no guard for the empty fingerprint: grouped by
  fingerprint, the records whose fingerprint is the empty string form a group like any
  other, emitted exactly when there is such a record and there are at least \<open>minCount\<close>
  of them; its members are those records in input order.
\<close>

theorem empty_fingerprint_group:
  "([] \<in> fst ` set (duplicateGroups lc records normalizedShape threshold)
      \<longleftrightarrow> (\<exists>r \<in> set records. normalizedShape r = [])
          \<and> threshold \<le> int (length (filter (\<lambda>r. normalizedShape r = []) records)))
   \<and> (\<forall>ms. ([], ms) \<in> set (duplicateGroups lc records normalizedShape threshold)
          \<longrightarrow> ms = filter (\<lambda>r. normalizedShape r = []) records)"
proof -
  have "[] \<in> normalizedShape ` set records \<longleftrightarrow> (\<exists>r \<in> set records. normalizedShape r = [])"
    by force
  then show ?thesis
    by (simp add: duplicateGroups_key duplicateGroups_member)
qed

theorem empty_fingerprint_group_witness:
  "([], [emptyShapeRecord ''A'', emptyShapeRecord ''B''])
     \<in> set (duplicateGroups codeUnitCompare
              [emptyShapeRecord ''A'', fooRecord, emptyShapeRecord ''B''] normalizedShape 2)
   \<and> [] \<in> fst ` set (duplicateGroups codeUnitCompare
              [emptyShapeRecord ''A'', fooRecord, emptyShapeRecord ''B''] normalizedShape 2)"
proof -
  have n: "normalizedShape (emptyShapeRecord ''A'') = []"
    "normalizedShape (emptyShapeRecord ''B'') = []" "normalizedShape fooRecord \<noteq> []"
    by (simp_all add: emptyShapeRecord_def fooRecord_def)
  have "([], [emptyShapeRecord ''A'', emptyShapeRecord ''B''])
     \<in> set (duplicateGroups codeUnitCompare
              [emptyShapeRecord ''A'', fooRecord, emptyShapeRecord ''B''] normalizedShape 2)"
    by (simp add: duplicateGroups_member n)
  moreover have "[] \<in> fst ` set (duplicateGroups codeUnitCompare
              [emptyShapeRecord ''A'', fooRecord, emptyShapeRecord ''B''] normalizedShape 2)"
    using empty_fingerprint_group
      [of codeUnitCompare "[emptyShapeRecord ''A'', fooRecord, emptyShapeRecord ''B'']" 2]
    by (simp add: n)
  ultimately show ?thesis by simp
qed

theorem empty_fingerprint_counterexample:
  "normalizedShape (emptyShapeRecord ''A'') = []
   \<and> normalizedShape (emptyShapeRecord ''B'') = []
   \<and> [] \<in> fst ` set (duplicateGroups codeUnitCompare
              [emptyShapeRecord ''A'', emptyShapeRecord ''B''] normalizedShape 2)"
proof -
  have n: "normalizedShape (emptyShapeRecord nm) = []" for nm
    by (simp add: emptyShapeRecord_def)
  then show ?thesis
    by (simp add: duplicateGroups_key)
qed

lemma alphabeticalCompare_le:
  "alphabeticalCompare a b \<le> 0 \<longleftrightarrow>
     map toLowerCase a < map toLowerCase b
     \<or> (map toLowerCase a = map toLowerCase b \<and> map isUpperCase a \<le> map isUpperCase b)"
  unfolding alphabeticalCompare_def Let_def by (auto simp del: map_eq_conv)

lemma lex_pair_total:
  fixes x y :: "'a :: linorder" and u v :: "'b :: linorder"
  shows "(x < y \<or> (x = y \<and> u \<le> v)) \<or> (y < x \<or> (y = x \<and> v \<le> u))"
  by auto

lemma lex_pair_trans:
  fixes x y z :: "'a :: linorder" and u v w :: "'b :: linorder"
  assumes "x < y \<or> (x = y \<and> u \<le> v)" "y < z \<or> (y = z \<and> v \<le> w)"
  shows "x < z \<or> (x = z \<and> u \<le> w)"
  using assms by auto

lemma alphabeticalCompare_consistent: "consistentComparator alphabeticalCompare"
  unfolding consistentComparator_def alphabeticalCompare_le
  by (intro conjI allI impI) (rule lex_pair_total, erule (1) lex_pair_trans)

lemma filter_insertBy:
  assumes tr: "\<And>a b c. cmp a b \<le> 0 \<Longrightarrow> cmp b c \<le> 0 \<Longrightarrow> cmp a c \<le> 0"
  shows "filter (\<lambda>h. cmp g h \<le> 0 \<and> cmp h g \<le> 0) (insertBy cmp x xs)
     = filter (\<lambda>h. cmp g h \<le> 0 \<and> cmp h g \<le> 0) (x # xs)"
proof (induction xs)
  case Nil
  then show ?case by simp
next
  case (Cons y ys)
  show ?case
  proof (cases "cmp x y \<le> 0")
    case True
    then show ?thesis by simp
  next
    case False
    then have "\<not> (cmp x g \<le> 0 \<and> cmp g y \<le> 0)"
      using tr by blast
    with False Cons show ?thesis by auto
  qed
qed

lemma filter_sortBy:
  assumes "consistentComparator cmp"
  shows "filter (\<lambda>h. cmp g h \<le> 0 \<and> cmp h g \<le> 0) (sortBy cmp xs)
     = filter (\<lambda>h. cmp g h \<le> 0 \<and> cmp h g \<le> 0) xs"
proof -
  from assms have tr: "\<And>a b c. cmp a b \<le> 0 \<Longrightarrow> cmp b c \<le> 0 \<Longrightarrow> cmp a c \<le> 0"
    unfolding consistentComparator_def by blast
  show ?thesis
    unfolding sortBy_def
  proof (induction xs)
    case Nil
    then show ?case by simp
  next
    case (Cons x xs)
    have "filter (\<lambda>h. cmp g h \<le> 0 \<and> cmp h g \<le> 0) (foldr (insertBy cmp) (x # xs) [])
        = filter (\<lambda>h. cmp g h \<le> 0 \<and> cmp h g \<le> 0) (x # foldr (insertBy cmp) xs [])"
      using filter_insertBy [of cmp g x "foldr (insertBy cmp) xs []", OF tr] by simp
    with Cons show ?case by simp
  qed
qed

lemma groupOrder_both:
  "groupOrder lc g h \<and> groupOrder lc h g \<longleftrightarrow>
     length (snd h) = length (snd g) \<and> lc (fst g) (fst h) \<le> 0 \<and> lc (fst h) (fst g) \<le> 0"
  unfolding groupOrder_def by auto

text \<open>
  C4, as amended. For every map of buckets, the list \<open>filterDuplicateGroups\<close> returns
  holds the buckets with at least \<open>minCount\<close> members, those with more members first.
  Buckets with as many members are in ascending order of their keys under
  \<open>localeCompare\<close>, the collation of the engine, and those whose keys it ties stay in the
  order of the map. \<open>localeCompare\<close> is any consistent comparator. Where it agrees with
  the lexicographic order of the code units on the keys of the map, the order of the
  buckets with as many members is that lexicographic order; for letters it is the
  alphabetical order, in which \<open>Alpha\<close> comes before \<open>Beta\<close>.
\<close>

theorem filterDuplicateGroups_sorted:
  fixes groups :: "'a buckets"
  assumes "consistentComparator localeCompare"
  shows "sorted_wrt (groupOrder localeCompare)
           (filterDuplicateGroups localeCompare groups threshold)
     \<and> set (filterDuplicateGroups localeCompare groups threshold)
           = {g \<in> set groups. threshold \<le> int (length (snd g))}
     \<and> (\<forall>g :: string \<times> 'a list. filter (\<lambda>h. length (snd h) = length (snd g)
                    \<and> localeCompare (fst g) (fst h) \<le> 0 \<and> localeCompare (fst h) (fst g) \<le> 0)
               (filterDuplicateGroups localeCompare groups threshold)
            = filter (\<lambda>h. length (snd h) = length (snd g)
                    \<and> localeCompare (fst g) (fst h) \<le> 0 \<and> localeCompare (fst h) (fst g) \<le> 0)
               (filter (\<lambda>h. threshold \<le> int (length (snd h))) groups))
     \<and> ((\<forall>a \<in> fst ` set groups. \<forall>b \<in> fst ` set groups. localeCompare a b \<le> 0 \<longleftrightarrow> a \<le> b) \<longrightarrow>
          sorted_wrt (\<lambda>g h. length (snd h) < length (snd g)
                         \<or> (length (snd g) = length (snd h) \<and> fst g \<le> fst h))
            (filterDuplicateGroups localeCompare groups threshold))
     \<and> map fst (filterDuplicateGroups alphabeticalCompare
          [(''Beta'', [x1, x2]), (''Alpha'', [x3, x4]), (''Gamma'', [x5, x6, x7])] 2)
         = [''Gamma'', ''Alpha'', ''Beta'']"
proof -
  let ?out = "filterDuplicateGroups localeCompare groups threshold"
  have f: "(\<lambda>(key, items). threshold \<le> int (length items))
      = (\<lambda>h :: string \<times> 'a list. threshold \<le> int (length (snd h)))"
    by auto
  have cc: "consistentComparator (compareGroups localeCompare :: string \<times> 'a list \<Rightarrow> _)"
    by (rule compareGroups_consistent [OF assms])
  have 1: "sorted_wrt (groupOrder localeCompare) ?out"
    using sorted_wrt_sortBy [OF cc, of "filter (\<lambda>(key, items). threshold \<le> int (length items)) groups"]
    by (simp add: filterDuplicateGroups_def compareGroups_le)
  have 2: "set ?out = {g \<in> set groups. threshold \<le> int (length (snd g))}"
    by (auto simp: filterDuplicateGroups_def set_sortBy)
  have 3: "filter (\<lambda>h. length (snd h) = length (snd g)
                    \<and> localeCompare (fst g) (fst h) \<le> 0 \<and> localeCompare (fst h) (fst g) \<le> 0) ?out
      = filter (\<lambda>h. length (snd h) = length (snd g)
                    \<and> localeCompare (fst g) (fst h) \<le> 0 \<and> localeCompare (fst h) (fst g) \<le> 0)
          (filter (\<lambda>h. threshold \<le> int (length (snd h))) groups)" for g :: "string \<times> 'a list"
    using filter_sortBy [OF cc, of g "filter (\<lambda>h. threshold \<le> int (length (snd h))) groups"]
    unfolding filterDuplicateGroups_def f compareGroups_le groupOrder_both .
  have 4: "sorted_wrt (\<lambda>g h. length (snd h) < length (snd g)
                         \<or> (length (snd g) = length (snd h) \<and> fst g \<le> fst h)) ?out"
    if "\<forall>a \<in> fst ` set groups. \<forall>b \<in> fst ` set groups. localeCompare a b \<le> 0 \<longleftrightarrow> a \<le> b"
  proof (rule sorted_wrt_mono_rel [OF _ 1])
    fix g h
    assume "g \<in> set ?out" "h \<in> set ?out" "groupOrder localeCompare g h"
    with that 2 show "length (snd h) < length (snd g)
        \<or> (length (snd g) = length (snd h) \<and> fst g \<le> fst h)"
      unfolding groupOrder_def by auto
  qed
  have 5: "map fst (filterDuplicateGroups alphabeticalCompare
          [(''Beta'', [x1, x2]), (''Alpha'', [x3, x4]), (''Gamma'', [x5, x6, x7])] 2)
         = [''Gamma'', ''Alpha'', ''Beta'']"
  proof -
    have "alphabeticalCompare ''Beta'' ''Alpha'' = 1"
      by code_simp
    then show ?thesis
      by (simp add: filterDuplicateGroups_def sortBy_def compareGroups_def)
  qed
  from 4 have 6:
    "(\<forall>a \<in> fst ` set groups. \<forall>b \<in> fst ` set groups. localeCompare a b \<le> 0 \<longleftrightarrow> a \<le> b) \<longrightarrow>
       sorted_wrt (\<lambda>g h. length (snd h) < length (snd g)
                      \<or> (length (snd g) = length (snd h) \<and> fst g \<le> fst h)) ?out"
    by blast
  show ?thesis
    by (intro conjI allI 1 2 3 5 6)
qed

theorem filterDuplicateGroups_sorted_witness:
  "consistentComparator alphabeticalCompare
   \<and> sorted_wrt (groupOrder alphabeticalCompare)
       (filterDuplicateGroups alphabeticalCompare
          [(''Beta'', [''a'', ''b'']), (''Alpha'', [''c'', ''d'']), (''Gamma'', [''e'', ''f'', ''g'']),
           (''Solo'', [''h''])] 2)
   \<and> filterDuplicateGroups alphabeticalCompare
          [(''Beta'', [''a'', ''b'']), (''Alpha'', [''c'', ''d'']), (''Gamma'', [''e'', ''f'', ''g'']),
           (''Solo'', [''h''])] 2
       = [(''Gamma'', [''e'', ''f'', ''g'']), (''Alpha'', [''c'', ''d'']), (''Beta'', [''a'', ''b''])]"
proof -
  have e: "filterDuplicateGroups alphabeticalCompare
          [(''Beta'', [''a'', ''b'']), (''Alpha'', [''c'', ''d'']), (''Gamma'', [''e'', ''f'', ''g'']),
           (''Solo'', [''h''])] 2
       = [(''Gamma'', [''e'', ''f'', ''g'']), (''Alpha'', [''c'', ''d'']), (''Beta'', [''a'', ''b''])]"
    by code_simp
  have s: "sorted_wrt (groupOrder alphabeticalCompare)
       (filterDuplicateGroups alphabeticalCompare
          [(''Beta'', [''a'', ''b'']), (''Alpha'', [''c'', ''d'']), (''Gamma'', [''e'', ''f'', ''g'']),
           (''Solo'', [''h''])] 2)"
    by (rule filterDuplicateGroups_sorted [OF alphabeticalCompare_consistent, THEN conjunct1])
  from alphabeticalCompare_consistent s e show ?thesis
    by (intro conjI)
qed

theorem keys_not_in_lexicographic_order:
  "filterDuplicateGroups alphabeticalCompare
      [(''Beta'', [''a'', ''b'']), (''alpha'', [''c'', ''d''])] 2
     = [(''alpha'', [''c'', ''d'']), (''Beta'', [''a'', ''b''])]
   \<and> ''Beta'' < ''alpha''"
  by code_simp

text \<open>
  C5. For every record list, key function and \<open>minCount\<close>, a key of a record appears in
  the output if and only if at least \<open>minCount\<close> records map to it; every key of the output
  is the key of a record and appears once; the members listed under a key are exactly the
  records with that key, in input order; and a key of exactly one record does not appear
  when \<open>minCount\<close> is 2.
\<close>

theorem duplicateGroups_keys_and_members:
  "(\<forall>r \<in> set items.
      keyFn r \<in> fst ` set (duplicateGroups lc items keyFn threshold)
        \<longleftrightarrow> threshold \<le> int (length (filter (\<lambda>x. keyFn x = keyFn r) items)))
   \<and> fst ` set (duplicateGroups lc items keyFn threshold) \<subseteq> keyFn ` set items
   \<and> distinct (map fst (duplicateGroups lc items keyFn threshold))
   \<and> (\<forall>(k, ms) \<in> set (duplicateGroups lc items keyFn threshold).
        ms = filter (\<lambda>x. keyFn x = k) items)
   \<and> (length (filter (\<lambda>x. keyFn x = k) items) = 1
        \<longrightarrow> k \<notin> fst ` set (duplicateGroups lc items keyFn 2))"
proof (intro conjI)
  show "\<forall>r \<in> set items.
      keyFn r \<in> fst ` set (duplicateGroups lc items keyFn threshold)
        \<longleftrightarrow> threshold \<le> int (length (filter (\<lambda>x. keyFn x = keyFn r) items))"
    by (simp add: duplicateGroups_key)
  show "fst ` set (duplicateGroups lc items keyFn threshold) \<subseteq> keyFn ` set items"
    using duplicateGroups_key [of _ lc items keyFn threshold] by blast
  show "distinct (map fst (duplicateGroups lc items keyFn threshold))"
    by (rule duplicateGroups_distinct)
  show "\<forall>(k, ms) \<in> set (duplicateGroups lc items keyFn threshold).
        ms = filter (\<lambda>x. keyFn x = k) items"
    by (auto simp: duplicateGroups_member)
  show "length (filter (\<lambda>x. keyFn x = k) items) = 1
        \<longrightarrow> k \<notin> fst ` set (duplicateGroups lc items keyFn 2)"
    by (simp add: duplicateGroups_key)
qed

theorem duplicateGroups_keys_and_members_witness:
  "duplicateGroups codeUnitCompare [''Foo'', ''Bar'', ''Foo'', ''Baz'', ''Baz'', ''Foo''] id 2
     = [(''Foo'', [''Foo'', ''Foo'', ''Foo'']), (''Baz'', [''Baz'', ''Baz''])]
   \<and> ''Foo'' \<in> fst ` set (duplicateGroups codeUnitCompare
        [''Foo'', ''Bar'', ''Foo'', ''Baz'', ''Baz'', ''Foo''] id 2)
   \<and> ''Bar'' \<notin> fst ` set (duplicateGroups codeUnitCompare
        [''Foo'', ''Bar'', ''Foo'', ''Baz'', ''Baz'', ''Foo''] id 2)"
proof -
  have e: "duplicateGroups codeUnitCompare [''Foo'', ''Bar'', ''Foo'', ''Baz'', ''Baz'', ''Foo''] id 2
     = [(''Foo'', [''Foo'', ''Foo'', ''Foo'']), (''Baz'', [''Baz'', ''Baz''])]"
    by code_simp
  from duplicateGroups_keys_and_members
    [of "[''Foo'', ''Bar'', ''Foo'', ''Baz'', ''Baz'', ''Foo'']" id codeUnitCompare 2 "''Bar''"]
  have "''Foo'' \<in> fst ` set (duplicateGroups codeUnitCompare
        [''Foo'', ''Bar'', ''Foo'', ''Baz'', ''Baz'', ''Foo''] id 2)"
    and "''Bar'' \<notin> fst ` set (duplicateGroups codeUnitCompare
        [''Foo'', ''Bar'', ''Foo'', ''Baz'', ''Baz'', ''Foo''] id 2)"
    by simp_all
  with e show ?thesis by simp
qed

section \<open>Properties of the extraction\<close>

lemma concat_map_concat_map:
  "concat (map f (concat (map g xs))) = concat (map (\<lambda>x. concat (map f (g x))) xs)"
  by (induction xs) auto

lemma visit_subnodes:
  "visit sf sourceText rel inc n = concat (map (nodeRecords sf sourceText rel inc) (subnodes n))"
proof (induction n)
  case (Node syn s e ch)
  have eq: "map (visit sf sourceText rel inc) ch
      = map (\<lambda>c. concat (map (nodeRecords sf sourceText rel inc) (subnodes c))) ch"
    using Node.IH by simp
  show ?case
    by (simp add: concat_map_concat_map eq)
qed

lemma traversal_allNodes:
  "concat (map (visit sf sourceText rel inc) (statements sf))
     = concat (map (nodeRecords sf sourceText rel inc) (allNodes sf))"
proof -
  have "visit sf sourceText rel inc
      = (\<lambda>n. concat (map (nodeRecords sf sourceText rel inc) (subnodes n)))"
    by (rule ext) (rule visit_subnodes)
  then show ?thesis
    by (simp add: allNodes_def concat_map_concat_map)
qed

lemma collectDeclarations_segments:
  "collectDeclarations sf sourceText rel inc
     = collectReExportRecords sf sourceText rel
       @ concat (map (nodeRecords sf sourceText rel inc) (allNodes sf))"
  by (simp add: collectDeclarations_def traversal_allNodes)

lemma subnodes_self: "n \<in> set (subnodes n)"
  by (cases n) simp


lemma nodeRecords_fields:
  assumes "r \<in> set (nodeRecords sf sourceText rel inc n)"
  shows "\<not> isReExport r"
    and "kind r \<noteq> Reexport"
    and "line r = getLine sf n"
    and "snippet r = formatSnippet (slice sourceText (start n) (endPos n)) MAX_SNIPPET_LENGTH"
    and "normalizedShape r = normalizeShape (slice sourceText (start n) (endPos n)) (name r)"
    and "kind r = Enum \<Longrightarrow> inc"
  using assms unfolding nodeRecords_def classify_def declarationRecordOf_def
  by (auto simp: Let_def split: syntaxKind.splits if_splits)

lemma reExportRecordsOf_fields:
  assumes "r \<in> set (reExportRecordsOf sf sourceText rel st)"
  shows "isReExport r"
    and "kind r = Reexport"
    and "propertyNames r = []"
    and "line r = getLine sf st"
    and "snippet r = formatSnippet (slice sourceText (start st) (endPos st)) MAX_SNIPPET_LENGTH"
    and "normalizedShape r = normalizeShape (slice sourceText (start st) (endPos st)) (name r)"
  using assms unfolding reExportRecordsOf_def
  by (auto simp: Let_def split: syntaxKind.splits option.splits exportClause.splits)

lemma collectReExportRecords_fields:
  assumes "r \<in> set (collectReExportRecords sf sourceText rel)"
  shows "isReExport r" and "kind r = Reexport"
  using assms reExportRecordsOf_fields unfolding collectReExportRecords_def by auto


lemma wellFormedNode_within:
  "wellFormedNode n \<Longrightarrow> m \<in> set (subnodes n) \<Longrightarrow>
     start n \<le> start m \<and> endPos m \<le> endPos n \<and> start m \<le> endPos m"
proof (induction n arbitrary: m)
  case (Node syn s e ch)
  show ?case
  proof (cases "m = Node syn s e ch")
    case True
    with Node.prems show ?thesis by simp
  next
    case False
    with Node.prems obtain c where c: "c \<in> set ch" "m \<in> set (subnodes c)"
      by auto
    with Node.prems have "wellFormedNode c" "s \<le> start c" "endPos c \<le> e"
      by auto
    with Node.IH [OF c(1) _ c(2)] show ?thesis by simp
  qed
qed

lemma sorted_concat_subnodes:
  assumes "\<forall>c \<in> set ch. wellFormedNode c \<and> sorted (map start (subnodes c))"
    and "sorted_wrt (\<lambda>a b. endPos a \<le> start b) ch"
  shows "sorted (map start (concat (map subnodes ch)))"
  using assms
proof (induction ch)
  case Nil
  then show ?case by simp
next
  case (Cons c ch)
  have "start x \<le> start y"
    if "x \<in> set (subnodes c)" "d \<in> set ch" "y \<in> set (subnodes d)" for x d y
  proof -
    from Cons.prems that have "start x \<le> endPos x" "endPos x \<le> endPos c"
      using wellFormedNode_within [of c x] by auto
    moreover from Cons.prems that have "endPos c \<le> start d" by auto
    moreover from Cons.prems that have "start d \<le> start y"
      using wellFormedNode_within [of d y] by auto
    ultimately show ?thesis by linarith
  qed
  with Cons show ?case
    by (auto simp: sorted_append)
qed

lemma wellFormedNode_sorted: "wellFormedNode n \<Longrightarrow> sorted (map start (subnodes n))"
proof (induction n)
  case (Node syn s e ch)
  then have "\<forall>c \<in> set ch. wellFormedNode c \<and> sorted (map start (subnodes c))"
    by auto
  moreover from Node.prems have "sorted_wrt (\<lambda>a b. endPos a \<le> start b) ch"
    by simp
  ultimately have "sorted (map start (concat (map subnodes ch)))"
    by (rule sorted_concat_subnodes)
  moreover have "s \<le> start m" if "c \<in> set ch" "m \<in> set (subnodes c)" for c m
    using Node.prems that wellFormedNode_within [of c m] by fastforce
  ultimately show ?case
    by auto
qed

lemma wellFormed_sorted_allNodes:
  assumes "wellFormed sf"
  shows "sorted (map start (allNodes sf))"
  unfolding allNodes_def
proof (rule sorted_concat_subnodes)
  show "\<forall>c \<in> set (statements sf). wellFormedNode c \<and> sorted (map start (subnodes c))"
    using assms wellFormedNode_sorted by (auto simp: wellFormed_def)
  show "sorted_wrt (\<lambda>a b. endPos a \<le> start b) (statements sf)"
    using assms by (simp add: wellFormed_def)
qed

lemma wellFormed_sorted_statements:
  assumes "wellFormed sf"
  shows "sorted (map start (statements sf))"
proof -
  have "sorted (map start ns)"
    if "\<forall>n \<in> set ns. wellFormedNode n" "sorted_wrt (\<lambda>a b. endPos a \<le> start b) ns" for ns
    using that
  proof (induction ns)
    case Nil
    then show ?case by simp
  next
    case (Cons n ns)
    have "start n \<le> start m" if "m \<in> set ns" for m
    proof -
      from Cons.prems have "start n \<le> endPos n"
        using wellFormedNode_within [of n n] subnodes_self by simp
      with Cons.prems that show ?thesis by fastforce
    qed
    with Cons show ?case by auto
  qed
  with assms show ?thesis by (simp add: wellFormed_def)
qed

lemma sorted_getLine:
  assumes "mono (lineOfPosition sf)" "sorted (map start ns)"
  shows "sorted (map (getLine sf) ns)"
  using assms(2)
proof (induction ns)
  case Nil
  then show ?case by simp
next
  case (Cons n ns)
  then show ?case
    using monoD [OF assms(1)] by (auto simp: getLine_def)
qed

lemma sorted_lines_concat:
  assumes "\<forall>n \<in> set ns. \<forall>r \<in> set (f n). line r = g n" "sorted (map g ns)"
  shows "sorted (map line (concat (map f ns)))"
  using assms
proof (induction ns)
  case Nil
  then show ?case by simp
next
  case (Cons n ns)
  have "sorted (map line (f n))"
    using Cons.prems(1) by (simp add: sorted_wrt_iff_nth_less sorted_iff_nth_mono)
  with Cons show ?case
    by (auto simp: sorted_append)
qed

lemma slice_span: "slice (pre @ span @ post) (length pre) (length pre + length span) = span"
  by (simp add: slice_def)

lemma reExportRecordsOf_named:
  assumes "nodeKind st = ExportDeclaration (Some moduleSpecifier) (Some (NamedExports elements))"
    and "sourceText = pre @ stmtText @ post"
    and "start st = length pre" and "endPos st = length pre + length stmtText"
  shows "reExportRecordsOf sf sourceText rel st =
     map (\<lambda>el.
           \<lparr> name = exportedName el, kind = Reexport, filePath = rel,
             line = lineOfPosition sf (length pre) + 1,
             snippet = formatSnippet stmtText MAX_SNIPPET_LENGTH,
             normalizedShape = normalizeShape stmtText (exportedName el),
             isReExport = True, propertyCount = 0, propertyNames = [] \<rparr>)
       elements"
  using assms by (simp add: reExportRecordsOf_def slice_span getLine_def)

lemma reExportRecordsOf_none:
  assumes "nodeKind st = ExportDeclaration (Some moduleSpecifier) None
     \<or> nodeKind st = ExportDeclaration (Some moduleSpecifier) (Some (NamespaceExport ns))
     \<or> nodeKind st = ExportDeclaration None clause"
  shows "reExportRecordsOf sf sourceText rel st = []"
  using assms by (auto simp: reExportRecordsOf_def)

lemma visit_no_declarations:
  assumes "\<forall>n \<in> set (subnodes st).
      nodeKind n = OtherSyntax \<or> (\<exists>m c. nodeKind n = ExportDeclaration m c)"
  shows "visit sf sourceText rel inc st = []"
proof -
  have "nodeRecords sf sourceText rel inc n = []" if "n \<in> set (subnodes st)" for n
    using assms that by (auto simp: nodeRecords_def classify_def)
  then show ?thesis
    by (simp add: visit_subnodes)
qed

text \<open>
  C6. Take a source unit with a statement of which the text is \<open>stmtText\<close>. When the
  statement is an export declaration with named exports and a module specifier, the
  records of the unit are the re-export records of the statements before it, one record
  for each of its elements in their order, the re-export records of the statements after
  it, and the records of the traversal. The record of an element has its exported name
  (the alias, when there is one), the kind reexport, \<open>isReExport\<close> true, no property
  names, and as snippet and fingerprint \<open>formatSnippet\<close> and \<open>normalizeShape\<close> of the
  text of the statement. A wildcard re-export, a namespace re-export and an export
  without module specifier give no records. The traversal finds no declaration in an
  export declaration. For the statement \<open>export { Foo, Bar } from "./m"\<close> the snippet is
  the text of the statement.
\<close>

theorem collectDeclarations_reexports:
  assumes "statements sf = before @ st # after"
    and "sourceText = pre @ stmtText @ post"
    and "start st = length pre" and "endPos st = length pre + length stmtText"
  shows \<open>(nodeKind st = ExportDeclaration (Some moduleSpecifier) (Some (NamedExports elements)) \<longrightarrow>
       collectDeclarations sf sourceText rel inc =
         concat (map (reExportRecordsOf sf sourceText rel) before)
         @ map (\<lambda>el.
                 \<lparr> name = exportedName el, kind = Reexport, filePath = rel,
                   line = lineOfPosition sf (length pre) + 1,
                   snippet = formatSnippet stmtText MAX_SNIPPET_LENGTH,
                   normalizedShape = normalizeShape stmtText (exportedName el),
                   isReExport = True, propertyCount = 0, propertyNames = [] \<rparr>)
             elements
         @ concat (map (reExportRecordsOf sf sourceText rel) after)
         @ concat (map (visit sf sourceText rel inc) (statements sf)))
   \<and> (nodeKind st = ExportDeclaration (Some moduleSpecifier) None
        \<or> nodeKind st = ExportDeclaration (Some moduleSpecifier) (Some (NamespaceExport ns))
        \<or> nodeKind st = ExportDeclaration None clause \<longrightarrow>
       collectDeclarations sf sourceText rel inc =
         concat (map (reExportRecordsOf sf sourceText rel) before)
         @ concat (map (reExportRecordsOf sf sourceText rel) after)
         @ concat (map (visit sf sourceText rel inc) (statements sf)))
   \<and> ((\<forall>n \<in> set (subnodes st).
          nodeKind n = OtherSyntax \<or> (\<exists>m c. nodeKind n = ExportDeclaration m c)) \<longrightarrow>
       visit sf sourceText rel inc st = [])
   \<and> (stmtText = ''export { Foo, Bar } from "./m"'' \<longrightarrow>
       formatSnippet stmtText MAX_SNIPPET_LENGTH = stmtText
       \<and> normalizeShape stmtText ''Foo'' = ''{ __NAME__, Bar } from "./m"''
       \<and> normalizeShape stmtText ''Bar'' = ''{ Foo, __NAME__ } from "./m"'')\<close>
proof (intro conjI impI)
  assume "nodeKind st = ExportDeclaration (Some moduleSpecifier) (Some (NamedExports elements))"
  from reExportRecordsOf_named [OF this assms(2-4)] assms(1)
  show "collectDeclarations sf sourceText rel inc =
         concat (map (reExportRecordsOf sf sourceText rel) before)
         @ map (\<lambda>el.
                 \<lparr> name = exportedName el, kind = Reexport, filePath = rel,
                   line = lineOfPosition sf (length pre) + 1,
                   snippet = formatSnippet stmtText MAX_SNIPPET_LENGTH,
                   normalizedShape = normalizeShape stmtText (exportedName el),
                   isReExport = True, propertyCount = 0, propertyNames = [] \<rparr>)
             elements
         @ concat (map (reExportRecordsOf sf sourceText rel) after)
         @ concat (map (visit sf sourceText rel inc) (statements sf))"
    by (simp add: collectDeclarations_def collectReExportRecords_def)
next
  assume "nodeKind st = ExportDeclaration (Some moduleSpecifier) None
        \<or> nodeKind st = ExportDeclaration (Some moduleSpecifier) (Some (NamespaceExport ns))
        \<or> nodeKind st = ExportDeclaration None clause"
  from reExportRecordsOf_none [OF this] assms(1)
  show "collectDeclarations sf sourceText rel inc =
         concat (map (reExportRecordsOf sf sourceText rel) before)
         @ concat (map (reExportRecordsOf sf sourceText rel) after)
         @ concat (map (visit sf sourceText rel inc) (statements sf))"
    by (simp add: collectDeclarations_def collectReExportRecords_def)
next
  assume "\<forall>n \<in> set (subnodes st).
          nodeKind n = OtherSyntax \<or> (\<exists>m c. nodeKind n = ExportDeclaration m c)"
  then show "visit sf sourceText rel inc st = []"
    by (rule visit_no_declarations)
next
  assume t: \<open>stmtText = ''export { Foo, Bar } from "./m"''\<close>
  show "formatSnippet stmtText MAX_SNIPPET_LENGTH = stmtText"
    unfolding t by code_simp
  show \<open>normalizeShape stmtText ''Foo'' = ''{ __NAME__, Bar } from "./m"''\<close>
    unfolding t by code_simp
  show \<open>normalizeShape stmtText ''Bar'' = ''{ Foo, __NAME__ } from "./m"''\<close>
    unfolding t by code_simp
qed

theorem collectDeclarations_reexports_witness:
  \<open>laterText = (''interface A { x: number }'' @ [CHR 0x0A]) @ ''export { Foo, Bar } from "./m"''
       @ ([CHR 0x0A] @ ''export * from "./n"'')
   \<and> collectDeclarations laterUnit laterText ''a.ts'' True =
      [\<lparr> name = ''Foo'', kind = Reexport, filePath = ''a.ts'', line = 2,
         snippet = ''export { Foo, Bar } from "./m"'',
         normalizedShape = ''{ __NAME__, Bar } from "./m"'',
         isReExport = True, propertyCount = 0, propertyNames = [] \<rparr>,
       \<lparr> name = ''Bar'', kind = Reexport, filePath = ''a.ts'', line = 2,
         snippet = ''export { Foo, Bar } from "./m"'',
         normalizedShape = ''{ Foo, __NAME__ } from "./m"'',
         isReExport = True, propertyCount = 0, propertyNames = [] \<rparr>,
       \<lparr> name = ''A'', kind = Interface, filePath = ''a.ts'', line = 1,
         snippet = ''interface A { x: number }'',
         normalizedShape = ''type __NAME__ = { x: number }'',
         isReExport = False, propertyCount = 1, propertyNames = [''x''] \<rparr>]
   \<and> map name (collectDeclarations (aliasUnit (\<lambda>p. 0)) aliasText ''a.ts'' True) = [''Bar'']
   \<and> collectDeclarations (wildcardUnit (\<lambda>p. 0)) wildcardText ''a.ts'' True = []\<close>
proof -
  let ?A = "Node (InterfaceDeclaration ''A'' [PropertySignature ''x'']) 0 25
      [Node OtherSyntax 10 11 [], Node OtherSyntax 14 23 []]"
  let ?E = "Node (ExportDeclaration (Some ''./m'')
        (Some (NamedExports [ExportSpecifier ''Foo'' None, ExportSpecifier ''Bar'' None])))
      26 56
      [Node OtherSyntax 33 45 [Node OtherSyntax 35 38 [], Node OtherSyntax 40 43 []],
       Node OtherSyntax 51 56 []]"
  let ?W = "Node (ExportDeclaration (Some ''./n'') None) 57 76 [Node OtherSyntax 71 76 []]"
  let ?stmt = \<open>''export { Foo, Bar } from "./m"''\<close>
  have st: "statements laterUnit = [?A] @ ?E # [?W]"
    by (simp add: laterUnit_def)
  have tx: \<open>laterText = (''interface A { x: number }'' @ [CHR 0x0A]) @ ?stmt
       @ ([CHR 0x0A] @ ''export * from "./n"'')\<close>
    by (simp add: laterText_def)
  have pos: "start ?E = length (''interface A { x: number }'' @ [CHR 0x0A])"
    "endPos ?E = length (''interface A { x: number }'' @ [CHR 0x0A]) + length ?stmt"
    by simp_all
  note t = collectDeclarations_reexports [OF st tx pos,
      of "''./m''" "[ExportSpecifier ''Foo'' None, ExportSpecifier ''Bar'' None]" "''a.ts''" True]
  have b: "reExportRecordsOf laterUnit laterText ''a.ts'' ?A = []"
    "reExportRecordsOf laterUnit laterText ''a.ts'' ?W = []"
    by (simp_all add: reExportRecordsOf_def)
  have v: "visit laterUnit laterText ''a.ts'' True ?E = []"
    "visit laterUnit laterText ''a.ts'' True ?W = []"
    by (simp_all add: nodeRecords_def classify_def)
  have a: "visit laterUnit laterText ''a.ts'' True ?A =
      [\<lparr> name = ''A'', kind = Interface, filePath = ''a.ts'', line = 1,
         snippet = ''interface A { x: number }'',
         normalizedShape = ''type __NAME__ = { x: number }'',
         isReExport = False, propertyCount = 1, propertyNames = [''x''] \<rparr>]"
    by code_simp
  have l: "lineOfPosition laterUnit = (\<lambda>p. if p < 26 then 0 else if p < 57 then 1 else 2)"
    by (simp add: laterUnit_def)
  have nk: "nodeKind ?E = ExportDeclaration (Some ''./m'')
      (Some (NamedExports [ExportSpecifier ''Foo'' None, ExportSpecifier ''Bar'' None]))"
    by simp
  note c1 = t [THEN conjunct1, THEN mp, OF nk]
  note c4 = t [THEN conjunct2, THEN conjunct2, THEN conjunct2, THEN mp, OF refl]
  have tr: "concat (map (visit laterUnit laterText ''a.ts'' True) (statements laterUnit)) =
      [\<lparr> name = ''A'', kind = Interface, filePath = ''a.ts'', line = 1,
         snippet = ''interface A { x: number }'',
         normalizedShape = ''type __NAME__ = { x: number }'',
         isReExport = False, propertyCount = 1, propertyNames = [''x''] \<rparr>]"
    unfolding st by (simp add: v a del: visit.simps)
  have 1: \<open>collectDeclarations laterUnit laterText ''a.ts'' True =
      [\<lparr> name = ''Foo'', kind = Reexport, filePath = ''a.ts'', line = 2,
         snippet = ''export { Foo, Bar } from "./m"'',
         normalizedShape = ''{ __NAME__, Bar } from "./m"'',
         isReExport = True, propertyCount = 0, propertyNames = [] \<rparr>,
       \<lparr> name = ''Bar'', kind = Reexport, filePath = ''a.ts'', line = 2,
         snippet = ''export { Foo, Bar } from "./m"'',
         normalizedShape = ''{ Foo, __NAME__ } from "./m"'',
         isReExport = True, propertyCount = 0, propertyNames = [] \<rparr>,
       \<lparr> name = ''A'', kind = Interface, filePath = ''a.ts'', line = 1,
         snippet = ''interface A { x: number }'',
         normalizedShape = ''type __NAME__ = { x: number }'',
         isReExport = False, propertyCount = 1, propertyNames = [''x''] \<rparr>]\<close>
    unfolding c1 by (simp add: b tr c4 l del: visit.simps)
  let ?L = "Node (ExportDeclaration (Some ''./m'')
        (Some (NamedExports [ExportSpecifier ''Bar'' (Some ''Foo'')])))
      0 32 [Node OtherSyntax 7 21 [Node OtherSyntax 9 19 []], Node OtherSyntax 27 32 []]"
  have "statements (aliasUnit (\<lambda>p. 0)) = [] @ ?L # []" "aliasText = [] @ aliasText @ []"
    "start ?L = length ([] :: string)" "endPos ?L = length ([] :: string) + length aliasText"
    by (simp_all add: aliasUnit_def aliasText_def)
  note ta = collectDeclarations_reexports [OF this,
      of "''./m''" "[ExportSpecifier ''Bar'' (Some ''Foo'')]" "''a.ts''" True]
  have nl: "nodeKind ?L = ExportDeclaration (Some ''./m'')
      (Some (NamedExports [ExportSpecifier ''Bar'' (Some ''Foo'')]))"
    by simp
  have vl: "concat (map (visit (aliasUnit (\<lambda>p. 0)) aliasText ''a.ts'' True)
      (statements (aliasUnit (\<lambda>p. 0)))) = []"
    by (simp add: aliasUnit_def nodeRecords_def classify_def)
  have 2: "map name (collectDeclarations (aliasUnit (\<lambda>p. 0)) aliasText ''a.ts'' True) = [''Bar'']"
    unfolding ta [THEN conjunct1, THEN mp, OF nl] vl by simp
  let ?S = "Node (ExportDeclaration (Some ''./m'') None) 0 19 [Node OtherSyntax 14 19 []]"
  have "statements (wildcardUnit (\<lambda>p. 0)) = [] @ ?S # []" "wildcardText = [] @ wildcardText @ []"
    "start ?S = length ([] :: string)" "endPos ?S = length ([] :: string) + length wildcardText"
    by (simp_all add: wildcardUnit_def wildcardText_def)
  note tw = collectDeclarations_reexports [OF this, of "''./m''" _ "''a.ts''" True]
  have ns: "nodeKind ?S = ExportDeclaration (Some ''./m'') None"
    by simp
  have vs: "concat (map (visit (wildcardUnit (\<lambda>p. 0)) wildcardText ''a.ts'' True)
      (statements (wildcardUnit (\<lambda>p. 0)))) = []"
    by (simp add: wildcardUnit_def nodeRecords_def classify_def)
  have 3: "collectDeclarations (wildcardUnit (\<lambda>p. 0)) wildcardText ''a.ts'' True = []"
    unfolding tw [THEN conjunct2, THEN conjunct1, THEN mp, OF disjI1, OF ns] vs by simp
  from tx 1 2 3 show ?thesis
    by (intro conjI)
qed


lemma mixedUnit_records:
  \<open>collectDeclarations mixedUnit mixedText ''a.ts'' True =
     [\<lparr> name = ''A'', kind = Reexport, filePath = ''a.ts'', line = 1,
        snippet = ''export { A } from "./m";'',
        normalizedShape = ''{ __NAME__ } from "./m"'',
        isReExport = True, propertyCount = 0, propertyNames = [] \<rparr>,
      \<lparr> name = ''Color'', kind = Enum, filePath = ''a.ts'', line = 2,
        snippet = ''enum Color { Red }'',
        normalizedShape = ''enum __NAME__ { Red }'',
        isReExport = False, propertyCount = 1, propertyNames = [''Red''] \<rparr>,
      fooRecord]\<close>
  by code_simp

lemma mixedUnit_records_no_enums:
  \<open>collectDeclarations mixedUnit mixedText ''a.ts'' False =
     [\<lparr> name = ''A'', kind = Reexport, filePath = ''a.ts'', line = 1,
        snippet = ''export { A } from "./m";'',
        normalizedShape = ''{ __NAME__ } from "./m"'',
        isReExport = True, propertyCount = 0, propertyNames = [] \<rparr>,
      fooRecord]\<close>
  by code_simp



lemma filter_segments:
  assumes "\<forall>x \<in> set xs. P x" "\<forall>y \<in> set ys. \<not> P y"
  shows "filter P (xs @ ys) = xs" "filter (\<lambda>r. \<not> P r) (xs @ ys) = ys"
  using assms by (simp_all add: filter_id_conv filter_empty_conv)

lemma reExportRecordsOf_filePath:
  "\<forall>r \<in> set (reExportRecordsOf sf sourceText rel st). filePath r = rel"
  "map (filePath_update (\<lambda>x. [])) (reExportRecordsOf sf sourceText rel st)
     = map (filePath_update (\<lambda>x. [])) (reExportRecordsOf sf sourceText rel' st)"
  unfolding reExportRecordsOf_def
  by (auto simp: Let_def split: syntaxKind.splits option.splits exportClause.splits)

lemma nodeRecords_filePath:
  "\<forall>r \<in> set (nodeRecords sf sourceText rel inc n). filePath r = rel"
  "map (filePath_update (\<lambda>x. [])) (nodeRecords sf sourceText rel inc n)
     = map (filePath_update (\<lambda>x. [])) (nodeRecords sf sourceText rel' inc n)"
  unfolding nodeRecords_def declarationRecordOf_def
  by (auto simp: Let_def split: option.splits)

lemma collectDeclarations_filePath:
  "\<forall>r \<in> set (collectDeclarations sf sourceText rel inc). filePath r = rel"
proof
  fix r
  assume "r \<in> set (collectDeclarations sf sourceText rel inc)"
  then consider st where "r \<in> set (reExportRecordsOf sf sourceText rel st)"
    | n where "r \<in> set (nodeRecords sf sourceText rel inc n)"
    by (auto simp: collectDeclarations_segments collectReExportRecords_def)
  then show "filePath r = rel"
  proof cases
    case 1
    with reExportRecordsOf_filePath(1) show ?thesis by blast
  next
    case 2
    with nodeRecords_filePath(1) show ?thesis by blast
  qed
qed

lemma map_concat_cong:
  assumes "\<And>x. map g (f x) = map g (f' x)"
  shows "map g (concat (map f xs)) = map g (concat (map f' xs))"
  using assms by (induction xs) simp_all

lemma collectDeclarations_other_fields:
  "map (filePath_update (\<lambda>x. [])) (collectDeclarations sf sourceText rel inc)
     = map (filePath_update (\<lambda>x. [])) (collectDeclarations sf sourceText rel' inc)"
proof -
  have a: "map (filePath_update (\<lambda>x. []))
        (concat (map (reExportRecordsOf sf sourceText rel) (statements sf)))
      = map (filePath_update (\<lambda>x. []))
        (concat (map (reExportRecordsOf sf sourceText rel') (statements sf)))"
    by (rule map_concat_cong) (rule reExportRecordsOf_filePath(2))
  have b: "map (filePath_update (\<lambda>x. []))
        (concat (map (nodeRecords sf sourceText rel inc) (allNodes sf)))
      = map (filePath_update (\<lambda>x. []))
        (concat (map (nodeRecords sf sourceText rel' inc) (allNodes sf)))"
    by (rule map_concat_cong) (rule nodeRecords_filePath(2))
  show ?thesis
    by (simp only: collectDeclarations_segments collectReExportRecords_def map_append a b)
qed

text \<open>
  C9, as amended. For every source unit, the records of the re-exports come first and the
  records of the traversal after them. The first are the records of the statements,
  statement by statement; the second are the records of the nodes in the order of the
  traversal. When the tree is well formed both orders are the order of the document: the
  positions of the statements and of the nodes visited do not decrease, nor do the line
  numbers of the records of either segment. A record of kind enum needs \<open>includeEnums\<close>,
  and with \<open>includeEnums\<close> every enum declaration with a name has its record. The
  extraction reads the working directory of the process: the file of every record is the
  path of the unit relative to it, and nothing else of the records depends on it.
\<close>

theorem collectDeclarations_order:
  assumes "wellFormed sf"
    and "rel = relativeFile relative sep cwd file"
    and "rel' = relativeFile relative sep cwd' file"
  shows "collectDeclarations sf sourceText rel inc
           = collectReExportRecords sf sourceText rel
             @ concat (map (nodeRecords sf sourceText rel inc) (allNodes sf))
     \<and> filter isReExport (collectDeclarations sf sourceText rel inc)
           = collectReExportRecords sf sourceText rel
     \<and> filter (\<lambda>r. \<not> isReExport r) (collectDeclarations sf sourceText rel inc)
           = concat (map (nodeRecords sf sourceText rel inc) (allNodes sf))
     \<and> sorted (map start (statements sf))
     \<and> sorted (map start (allNodes sf))
     \<and> sorted (map line (collectReExportRecords sf sourceText rel))
     \<and> sorted (map line (concat (map (nodeRecords sf sourceText rel inc) (allNodes sf))))
     \<and> (\<forall>r \<in> set (collectDeclarations sf sourceText rel inc). kind r = Enum \<longrightarrow> inc)
     \<and> (inc \<longrightarrow>
          (\<forall>n \<in> set (allNodes sf). \<forall>nm ms. nodeKind n = EnumDeclaration nm ms \<and> nm \<noteq> [] \<longrightarrow>
             declarationRecordOf sf sourceText rel Enum nm n
               \<in> set (collectDeclarations sf sourceText rel inc)))
     \<and> (\<forall>r \<in> set (collectDeclarations sf sourceText rel inc).
           filePath r = toPosix sep (relative cwd file))
     \<and> map (filePath_update (\<lambda>x. [])) (collectDeclarations sf sourceText rel inc)
           = map (filePath_update (\<lambda>x. [])) (collectDeclarations sf sourceText rel' inc)"
proof -
  let ?re = "collectReExportRecords sf sourceText rel"
  let ?tr = "concat (map (nodeRecords sf sourceText rel inc) (allNodes sf))"
  have seg: "collectDeclarations sf sourceText rel inc = ?re @ ?tr"
    by (rule collectDeclarations_segments)
  have re: "\<forall>r \<in> set ?re. isReExport r"
    using collectReExportRecords_fields by blast
  have tr: "\<forall>r \<in> set ?tr. \<not> isReExport r"
    using nodeRecords_fields(1) by fastforce
  from assms have mono: "mono (lineOfPosition sf)"
    by (simp add: wellFormed_def)
  have s1: "sorted (map start (statements sf))"
    using assms(1) by (rule wellFormed_sorted_statements)
  have s2: "sorted (map start (allNodes sf))"
    using assms(1) by (rule wellFormed_sorted_allNodes)
  have l1: "sorted (map line ?re)"
    unfolding collectReExportRecords_def
    by (rule sorted_lines_concat [where g = "getLine sf"])
      (use reExportRecordsOf_fields(4) sorted_getLine [OF mono s1] in auto)
  have l2: "sorted (map line ?tr)"
    by (rule sorted_lines_concat [where g = "getLine sf"])
      (use nodeRecords_fields(3) sorted_getLine [OF mono s2] in auto)
  have e1: "\<forall>r \<in> set (?re @ ?tr). kind r = Enum \<longrightarrow> inc"
    using collectReExportRecords_fields(2) nodeRecords_fields(6) by fastforce
  have e2: "declarationRecordOf sf sourceText rel Enum nm n \<in> set (?re @ ?tr)"
    if "inc" "n \<in> set (allNodes sf)" "nodeKind n = EnumDeclaration nm ms" "nm \<noteq> []" for n nm ms
  proof -
    from that have "nodeRecords sf sourceText rel inc n
        = [declarationRecordOf sf sourceText rel Enum nm n]"
      by (simp add: nodeRecords_def classify_def)
    with that(2) show ?thesis by force
  qed
  from e2 have e3: "inc \<longrightarrow>
      (\<forall>n \<in> set (allNodes sf). \<forall>nm ms. nodeKind n = EnumDeclaration nm ms \<and> nm \<noteq> [] \<longrightarrow>
         declarationRecordOf sf sourceText rel Enum nm n \<in> set (?re @ ?tr))"
    by blast
  have r: "rel = toPosix sep (relative cwd file)"
    using assms(2) by (simp add: relativeFile_def)
  have "\<forall>r \<in> set (?re @ ?tr). filePath r = rel"
    using collectDeclarations_filePath [of sf sourceText rel inc] unfolding seg .
  then have f1: "\<forall>r \<in> set (?re @ ?tr). filePath r = toPosix sep (relative cwd file)"
    by (subst r [symmetric])
  have f2: "map (filePath_update (\<lambda>x. [])) (?re @ ?tr)
      = map (filePath_update (\<lambda>x. [])) (collectDeclarations sf sourceText rel' inc)"
    using collectDeclarations_other_fields [of sf sourceText rel inc rel']
    unfolding seg .
  show ?thesis
    unfolding seg
    by (intro conjI refl filter_segments [OF re tr] s1 s2 l1 l2 e1 e3 f1 f2)
qed

lemma wellFormed_mixedUnit: "wellFormed mixedUnit"
  by (simp add: wellFormed_def mixedUnit_def mono_def)

lemma relativeFile_examples:
  "relativeFile posixRelative CHR ''/'' ''/repo/src'' ''/repo/src/a.ts'' = ''a.ts''"
  "relativeFile posixRelative CHR ''/'' ''/repo'' ''/repo/src/a.ts'' = ''src/a.ts''"
  by code_simp+

theorem collectDeclarations_order_witness:
  "wellFormed mixedUnit
   \<and> relativeFile posixRelative CHR ''/'' ''/repo/src'' ''/repo/src/a.ts'' = ''a.ts''
   \<and> map kind (collectDeclarations mixedUnit mixedText ''a.ts'' True) = [Reexport, Enum, Interface]
   \<and> map kind (collectDeclarations mixedUnit mixedText ''a.ts'' False) = [Reexport, Interface]
   \<and> map line (collectDeclarations mixedUnit mixedText ''a.ts'' True) = [1, 2, 3]
   \<and> map kind (filter isReExport (collectDeclarations mixedUnit mixedText ''a.ts'' True))
       = [Reexport]
   \<and> sorted (map line (collectReExportRecords mixedUnit mixedText ''a.ts''))
   \<and> map (filePath_update (\<lambda>x. [])) (collectDeclarations mixedUnit mixedText ''a.ts'' True)
       = map (filePath_update (\<lambda>x. [])) (collectDeclarations mixedUnit mixedText ''src/a.ts'' True)"
proof -
  note t = collectDeclarations_order [OF wellFormed_mixedUnit
      relativeFile_examples(1) [symmetric] relativeFile_examples(2) [symmetric],
      of mixedText True]
  from t have "sorted (map line (collectReExportRecords mixedUnit mixedText ''a.ts''))"
    by blast
  moreover from t have "map (filePath_update (\<lambda>x. []))
        (collectDeclarations mixedUnit mixedText ''a.ts'' True)
      = map (filePath_update (\<lambda>x. [])) (collectDeclarations mixedUnit mixedText ''src/a.ts'' True)"
    by blast
  ultimately show ?thesis
    by (simp add: wellFormed_mixedUnit mixedUnit_records mixedUnit_records_no_enums fooRecord_def
        relativeFile_examples)
qed

theorem extraction_reads_working_directory:
  "collectDeclarations mixedUnit mixedText
       (relativeFile posixRelative CHR ''/'' ''/repo/src'' ''/repo/src/a.ts'') True
     \<noteq> collectDeclarations mixedUnit mixedText
       (relativeFile posixRelative CHR ''/'' ''/repo'' ''/repo/src/a.ts'') True"
proof
  assume "collectDeclarations mixedUnit mixedText
       (relativeFile posixRelative CHR ''/'' ''/repo/src'' ''/repo/src/a.ts'') True
     = collectDeclarations mixedUnit mixedText
       (relativeFile posixRelative CHR ''/'' ''/repo'' ''/repo/src/a.ts'') True"
  then have eq: "collectDeclarations mixedUnit mixedText ''a.ts'' True
      = collectDeclarations mixedUnit mixedText ''src/a.ts'' True"
    by (simp only: relativeFile_examples)
  have "fooRecord \<in> set (collectDeclarations mixedUnit mixedText ''a.ts'' True)"
    by (simp add: mixedUnit_records)
  with eq collectDeclarations_filePath [of mixedUnit mixedText "''src/a.ts''" True]
  have "filePath fooRecord = ''src/a.ts''"
    by simp
  then show False
    by (simp add: fooRecord_def)
qed

lemma readStringArg_other:
  assumes "argAt argv i = Some arg" "arg \<noteq> flag" "\<not> startsWith arg (flag @ ''='')"
  shows "readStringArg argv i flag = Inr None"
  using assms unfolding readStringArg_def by (simp add: Let_def)

lemma readEnumArg_other:
  assumes "argAt argv i = Some arg" "arg \<noteq> flag" "\<not> startsWith arg (flag @ ''='')"
  shows "readEnumArg argv i flag allowed = Inr None"
  unfolding readEnumArg_def by (simp add: readStringArg_other [OF assms])

lemma not_isValueFlagD:
  assumes "\<not> isValueFlag arg" "flag \<in> set valueFlags"
  shows "arg \<noteq> flag" "\<not> startsWith arg (flag @ ''='')"
  using assms unfolding isValueFlag_def by blast+

lemma parseFormat_other:
  assumes arg: "argAt argv i = Some arg" and nv: "\<not> isValueFlag arg"
  shows "parseFormat integerValue argv i options = Inr (options, i)"
proof -
  have rs: "readStringArg argv i flag = Inr None" if "flag \<in> set valueFlags" for flag
    using readStringArg_other [OF arg] not_isValueFlagD [OF nv that] by blast
  have re: "readEnumArg argv i flag allowed = Inr None" if "flag \<in> set valueFlags" for flag allowed
    using readEnumArg_other [OF arg] not_isValueFlagD [OF nv that] by blast
  have "parseMin integerValue argv i options = Inr (options, i)"
    unfolding parseMin_def by (simp add: rs valueFlags_def)
  then have "parseExclude integerValue argv i options = Inr (options, i)"
    unfolding parseExclude_def by (simp add: rs valueFlags_def)
  then have "parseTsconfig integerValue argv i options = Inr (options, i)"
    unfolding parseTsconfig_def by (simp add: rs valueFlags_def)
  then have "parseRoot integerValue argv i options = Inr (options, i)"
    unfolding parseRoot_def by (simp add: rs valueFlags_def)
  then have "parseOutput integerValue argv i options = Inr (options, i)"
    unfolding parseOutput_def by (simp add: rs valueFlags_def)
  then have "parseMode integerValue argv i options = Inr (options, i)"
    unfolding parseMode_def by (simp add: re valueFlags_def)
  then show ?thesis
    unfolding parseFormat_def by (simp add: re valueFlags_def)
qed


lemma parseArg_no_value_flag:
  assumes "i < length argv" "\<not> isValueFlag (argv ! i)"
  shows "\<exists>options'. parseArg integerValue argv i options = Inr (options', i)"
proof -
  from assms(1) have arg: "argAt argv i = Some (argv ! i)"
    by (simp add: argAt_def)
  show ?thesis
    unfolding parseArg_def
    by (simp add: arg parseFormat_other [OF arg assms(2)])
qed


lemma parseLoop_no_value_flag:
  assumes "\<forall>a \<in> set argv. \<not> isValueFlag a"
  shows "\<exists>options'. parseLoop integerValue argv i options = Inr options'"
proof (induction "length argv - i" arbitrary: i options)
  case 0
  then show ?case by simp
next
  case (Suc d)
  then have lt: "i < length argv" by simp
  with assms have "\<not> isValueFlag (argv ! i)" by simp
  from parseArg_no_value_flag [OF lt this]
  obtain o' where step: "parseArg integerValue argv i options = Inr (o', i)" by blast
  from Suc have "d = length argv - (i + 1)" by simp
  from Suc.hyps(1) [OF this] show ?case
    by (subst parseLoop.simps) (simp add: lt step)
qed




















lemma shiftIndex_simps [simp]:
  "shiftIndex d (Inl e) = Inl e" "shiftIndex d (Inr (x, n)) = Inr (x, d + n)"
  by (simp_all add: shiftIndex_def)





















end
